theory Spec2Isabelle
  imports Complex_Main
begin

section \<open>The Luigi pipeline of \<open>src/pipelines/Luigi-Tasks.ipynb\<close>\<close>

text \<open>
  The notebook declares seven Luigi task classes. Each class has parameters, a
  \<open>requires\<close> method naming its dependencies, an \<open>output\<close> method naming its completion
  marker (a \<open>LocalTarget\<close>) and either a \<open>run\<close> method or, for the two
  \<open>ExternalProgramTask\<close> classes, a \<open>program_args\<close> method.

  Strings are byte strings (the notebook's kernel is Python 2.7), integers are unbounded.
\<close>

subsection \<open>Python string formatting\<close>

text \<open>
  \<open>"%d" % i\<close> for an integer \<open>i\<close>: the decimal digits, with a leading minus sign for a
  negative number.
\<close>

definition digit_char :: "nat \<Rightarrow> char" where
  "digit_char d = ''0123456789'' ! d"

fun show_nat :: "nat \<Rightarrow> string" where
  "show_nat n = (if n < 10 then [digit_char n] else show_nat (n div 10) @ [digit_char (n mod 10)])"

declare show_nat.simps [simp del]

definition fmt_d :: "int \<Rightarrow> string" where
  "fmt_d i = (if i < 0 then CHR ''-'' # show_nat (nat (- i)) else show_nat (nat i))"

subsection \<open>Errors\<close>

text \<open>
  The exceptions a work routine can end with. \<open>Exception msg\<close> is an instance of the
  class \<open>Exception\<close> itself, which only line 336 of the notebook raises: the failure of
  the threshold gate. \<open>OverflowError\<close> is what the conversion of an integer too large
  for a float raises (the \<open>%\<close> operator of Python 2.7 reports that failure as a
  \<open>TypeError\<close>, and the constructor stands for that as well; either way it is not
  the \<open>Exception\<close> of line 336). \<open>Collaborator\<close> stands for whatever an opaque
  routine (Keras, the helpers, an external program) raises.
\<close>

datatype py_error =
    Exception string
  | KeyError string
  | IndexError
  | IOError
  | ValueError
  | OverflowError
  | Collaborator string

subsection \<open>Numbers\<close>

text \<open>
  A metric is a Python number: a float (what Keras returns, what \<open>json.load\<close> reads
  for \<open>0.8\<close>, \<open>-0.0\<close>, \<open>NaN\<close>, \<open>Infinity\<close>) or an integer of any size
  (what \<open>json.load\<close> reads for \<open>1\<close>). \<open>Fin q\<close> is a finite float other than
  negative zero, with exact value \<open>q\<close>; \<open>NegZero\<close> is the float \<open>-0.0\<close>;
  \<open>PyInt n\<close> is the integer \<open>n\<close>. Python compares two numbers, floats and integers
  alike, by their exact values; negative zero equals zero; every comparison with NaN is
  false.
\<close>

datatype pynum = Fin rat | PyInt int | NegZero | PosInf | NegInf | NaN

fun exact_value :: "pynum \<Rightarrow> rat" where
  "exact_value (Fin q) = q"
| "exact_value (PyInt n) = of_int n"
| "exact_value _ = 0"

fun py_gt :: "pynum \<Rightarrow> pynum \<Rightarrow> bool" where
  "py_gt NaN _ = False"
| "py_gt _ NaN = False"
| "py_gt PosInf PosInf = False"
| "py_gt PosInf _ = True"
| "py_gt _ PosInf = False"
| "py_gt NegInf _ = False"
| "py_gt _ NegInf = True"
| "py_gt x y = (exact_value x > exact_value y)"

text \<open>
  \<open>float(n)\<close> for an integer \<open>n\<close>: the nearest number with 53 significant bits, ties
  to the one with an even last bit; \<open>OverflowError\<close> when that number is
  \<open>2 ^ 1024\<close> or more in magnitude.
\<close>

fun bitlen :: "nat \<Rightarrow> nat" where
  "bitlen n = (if n = 0 then 0 else Suc (bitlen (n div 2)))"

declare bitlen.simps [simp del]

definition round_to_53_bits :: "nat \<Rightarrow> nat" where
  "round_to_53_bits a =
     (let k = bitlen a - 53; m = a div 2 ^ k; r = a mod 2 ^ k
      in (if 2 * r > 2 ^ k \<or> (2 * r = 2 ^ k \<and> odd m) then m + 1 else m) * 2 ^ k)"

definition float_of_int :: "int \<Rightarrow> py_error + rat" where
  "float_of_int n =
     (let v = round_to_53_bits (nat \<bar>n\<bar>)
      in if v \<ge> 2 ^ 1024 then Inl OverflowError
         else Inr (if n < 0 then - of_nat v else of_nat v))"

text \<open>
  \<open>"%f" % x\<close>: an integer is converted to a float first; then six digits after the
  decimal point, the exact value of the float rounded to the nearest multiple of
  \<open>10\<^sup>-\<^sup>6\<close>, ties to the even one, with a minus sign for a negative float and for
  negative zero.
\<close>

definition round_half_even :: "rat \<Rightarrow> nat" where
  "round_half_even q =
     (let f = \<lfloor>q\<rfloor>; r = q - of_int f
      in nat (if r < 1 / 2 then f
              else if r > 1 / 2 then f + 1
              else if even f then f else f + 1))"

definition pad6 :: "string \<Rightarrow> string" where
  "pad6 s = replicate (6 - length s) CHR ''0'' @ s"

definition fixed6 :: "rat \<Rightarrow> string" where
  "fixed6 q =
     (let n = round_half_even (\<bar>q\<bar> * 1000000)
      in (if q < 0 then ''-'' else '''') @ show_nat (n div 1000000) @ ''.'' @
         pad6 (show_nat (n mod 1000000)))"

fun fmt_f :: "pynum \<Rightarrow> py_error + string" where
  "fmt_f (Fin q) = Inr (fixed6 q)"
| "fmt_f (PyInt n) = (case float_of_int n of Inl e \<Rightarrow> Inl e | Inr q \<Rightarrow> Inr (fixed6 q))"
| "fmt_f NegZero = Inr ''-0.000000''"
| "fmt_f PosInf = Inr ''inf''"
| "fmt_f NegInf = Inr ''-inf''"
| "fmt_f NaN = Inr ''nan''"

subsection \<open>Tasks and their identity\<close>

text \<open>
  A task is its class together with its parameter values, in the order the class declares
  them (Luigi binds positional constructor arguments in that order). Two tasks are the
  same node exactly when they are equal as values of this type: this is the TaskKey.

  \<^item> \<open>DownloadDataset dataset_version dataset_name\<close>
  \<^item> \<open>ExtractDataset dataset_version dataset_name\<close>
  \<^item> \<open>Configure config_name\<close>
  \<^item> \<open>BaselineValidation dataset_version dataset_name config_name\<close>
  \<^item> \<open>TrainModel dataset_version dataset_name config_name model_version model_name\<close>
  \<^item> \<open>Evaluate dataset_version dataset_name config_name model_version model_name\<close>
  \<^item> \<open>Export dataset_version dataset_name config_name model_version model_name\<close>
\<close>

datatype task =
    DownloadDataset int string
  | ExtractDataset int string
  | Configure string
  | BaselineValidation int string string
  | TrainModel int string string int string
  | Evaluate int string string int string
  | Export int string string int string

text \<open>Class attributes that are not parameters.\<close>

definition base_url :: string where
  "base_url = ''http://plainpixels.work/resources/datasets''"

definition file_fomat :: string where
  "file_fomat = ''zip''"

definition baseline_name :: string where
  "baseline_name = ''find_round_objects.json''"

definition validation_set :: string where
  "validation_set = ''Test''"

subsection \<open>The world and its Targets\<close>

text \<open>
  What a file holds: a JSON object with numeric values, seen as the dictionary that
  \<open>json.load\<close> returns for it, or any other artifact (an archive, a pickled object, a
  saved model, a directory), identified by a number. JSON documents of another shape (a
  list, an object with a string or a nested value) are outside the model.
\<close>

datatype content = Json "string \<Rightarrow> pynum option" | Blob nat

text \<open>
  The world is the file system: what exists at each path, and the set of paths whose
  parent directories have been created by \<open>makedirs\<close>.
\<close>

record world =
  files :: "string \<Rightarrow> content option"
  parents_made :: "string set"

record target =
  path :: string

text \<open>
  Modelled from the spec: the Target abstraction (Luigi's \<open>LocalTarget\<close> is a library
  class, not part of the repository). Constructing a Target does not create the object it
  represents; \<open>exists\<close> is a pure predicate; \<open>makedirs\<close> (the spec's
  \<open>ensureParentExists\<close>) is idempotent and creates the parent directories only; writing
  replaces what the path holds.
\<close>

definition LocalTarget :: "string \<Rightarrow> world \<Rightarrow> target \<times> world" where
  "LocalTarget p w = (\<lparr>path = p\<rparr>, w)"

definition exists :: "target \<Rightarrow> world \<Rightarrow> bool" where
  "exists tg w = (files w (path tg) \<noteq> None)"

definition makedirs :: "target \<Rightarrow> world \<Rightarrow> world" where
  "makedirs tg w = w\<lparr>parents_made := insert (path tg) (parents_made w)\<rparr>"

definition write_target :: "target \<Rightarrow> content \<Rightarrow> world \<Rightarrow> world" where
  "write_target tg c w = w\<lparr>files := (files w)(path tg \<mapsto> c)\<rparr>"

subsection \<open>\<open>output\<close>\<close>

text \<open>
  Every method call happens in a world and returns a value and the world it leaves
  behind. Each \<open>output\<close> method is \<open>return LocalTarget(<format> % <parameters>)\<close>.
\<close>

fun output_of :: "task \<Rightarrow> world \<Rightarrow> target \<times> world" where
  "output_of (DownloadDataset dataset_version dataset_name) =
     LocalTarget (''/tmp/'' @ dataset_name @ ''_v'' @ fmt_d dataset_version @ ''.'' @ file_fomat)"
| "output_of (ExtractDataset dataset_version dataset_name) =
     LocalTarget (''datasets/fruit-images-dataset/'' @ fmt_d dataset_version)"
| "output_of (Configure config_name) =
     LocalTarget (''configurations/'' @ config_name @ ''.pickle'')"
| "output_of (BaselineValidation dataset_version dataset_name config_name) =
     LocalTarget (''baseline/'' @ baseline_name @ ''.json'')"
| "output_of (TrainModel dataset_version dataset_name config_name model_version model_name) =
     LocalTarget (''model/'' @ fmt_d model_version @ ''/'' @ model_name @ ''.h5'')"
| "output_of (Evaluate dataset_version dataset_name config_name model_version model_name) =
     LocalTarget (''evaluation/'' @ fmt_d model_version @ ''/'' @ model_name @ ''.json'')"
| "output_of (Export dataset_version dataset_name config_name model_version model_name) =
     LocalTarget (''serving/'' @ model_name @ ''/'' @ fmt_d model_version)"

subsection \<open>\<open>requires\<close> and \<open>input\<close>\<close>

text \<open>
  The dependencies in declaration order (the order of the \<open>yield\<close> statements).
  \<open>DownloadDataset\<close> and \<open>Configure\<close> do not override \<open>requires\<close>: no dependencies.
\<close>

fun requires :: "task \<Rightarrow> task list" where
  "requires (DownloadDataset dataset_version dataset_name) = []"
| "requires (ExtractDataset dataset_version dataset_name) =
     [DownloadDataset dataset_version dataset_name]"
| "requires (Configure config_name) = []"
| "requires (BaselineValidation dataset_version dataset_name config_name) =
     [ExtractDataset dataset_version dataset_name, Configure config_name]"
| "requires (TrainModel dataset_version dataset_name config_name model_version model_name) =
     [ExtractDataset dataset_version dataset_name, Configure config_name]"
| "requires (Evaluate dataset_version dataset_name config_name model_version model_name) =
     [TrainModel dataset_version dataset_name config_name model_version model_name,
      BaselineValidation dataset_version dataset_name config_name,
      ExtractDataset dataset_version dataset_name,
      Configure config_name]"
| "requires (Export dataset_version dataset_name config_name model_version model_name) =
     [Evaluate dataset_version dataset_name config_name model_version model_name,
      TrainModel dataset_version dataset_name config_name model_version model_name]"

text \<open>
  \<open>self.input()\<close>: the Targets of the dependencies, in the same order, each obtained by
  calling that dependency's \<open>output\<close>.
\<close>

fun outputs :: "task list \<Rightarrow> world \<Rightarrow> target list \<times> world" where
  "outputs [] w = ([], w)"
| "outputs (d # ds) w =
     (case output_of d w of (tg, w') \<Rightarrow>
        (case outputs ds w' of (tgs, w'') \<Rightarrow> (tg # tgs, w'')))"

definition input :: "task \<Rightarrow> world \<Rightarrow> target list \<times> world" where
  "input t w = outputs (requires t) w"

subsection \<open>Indexing and reading\<close>

text \<open>\<open>xs[i]\<close> for a literal index \<open>i \<ge> 0\<close>.\<close>

definition py_index :: "'a list \<Rightarrow> nat \<Rightarrow> py_error + 'a" where
  "py_index xs i = (if i < length xs then Inr (xs ! i) else Inl IndexError)"

text \<open>\<open>d[k]\<close> for a dictionary.\<close>

definition py_getitem :: "(string \<Rightarrow> 'v option) \<Rightarrow> string \<Rightarrow> py_error + 'v" where
  "py_getitem d k = (case d k of None \<Rightarrow> Inl (KeyError k) | Some v \<Rightarrow> Inr v)"

text \<open>
  \<open>with tg.open("r") as i: json.load(i)\<close>: opening a file that does not exist raises
  \<open>IOError\<close>, decoding something that is not JSON raises \<open>ValueError\<close>.
\<close>

definition read_json :: "target \<Rightarrow> world \<Rightarrow> py_error + (string \<Rightarrow> pynum option)" where
  "read_json tg w =
     (case files w (path tg) of
        None \<Rightarrow> Inl IOError
      | Some (Blob _) \<Rightarrow> Inl ValueError
      | Some (Json d) \<Rightarrow> Inr d)"

text \<open>
  A statement that may raise, followed by the rest of the routine: the exception ends the
  routine in the world reached so far.
\<close>

definition or_raise ::
  "py_error + 'a \<Rightarrow> world \<Rightarrow> ('a \<Rightarrow> (py_error + 'b) \<times> world) \<Rightarrow> (py_error + 'b) \<times> world" where
  "or_raise r w k = (case r of Inl e \<Rightarrow> (Inl e, w) | Inr x \<Rightarrow> k x)"

subsection \<open>\<open>DownloadDataset.program_args\<close> and \<open>ExtractDataset.program_args\<close>\<close>

definition DownloadDataset_program_args :: "int \<Rightarrow> string \<Rightarrow> world \<Rightarrow> string list \<times> world" where
  "DownloadDataset_program_args dataset_version dataset_name w =
     (let self = DownloadDataset dataset_version dataset_name;
          url = base_url @ ''/'' @ dataset_name @ ''_v'' @ fmt_d dataset_version @ ''.'' @ file_fomat
      in case output_of self w of (out, w1) \<Rightarrow>
           ([''curl'', ''-L'', ''-o'', path out, url], w1))"

text \<open>
  \<open>ExtractDataset.requires\<close> returns one task (not a list), so \<open>self.input()\<close> is
  that task's Target.
\<close>

definition ExtractDataset_program_args :: "int \<Rightarrow> string \<Rightarrow> world \<Rightarrow> string list \<times> world" where
  "ExtractDataset_program_args dataset_version dataset_name w =
     (let self = ExtractDataset dataset_version dataset_name
      in case output_of self w of (out, w1) \<Rightarrow>
         let w2 = makedirs out w1
         in case output_of self w2 of (out', w3) \<Rightarrow>
            (case output_of (DownloadDataset dataset_version dataset_name) w3 of (inp, w4) \<Rightarrow>
               ([''unzip'', ''-u'', ''-q'', ''-d'', path out', path inp], w4)))"

subsection \<open>The collaborators\<close>

text \<open>
  The routines the work routines call and the notebook does not define, taken as
  parameters. \<open>'m\<close> is a trained-model handle, \<open>'g\<close> a data-source handle.

  \<^item> \<open>load_model\<close>: \<open>keras.models.load_model(path)\<close>, given what the path holds.
  \<^item> \<open>build_generator\<close>: \<open>helper.keras_util.build_generator(config, dataset, subset)\<close>.
  \<^item> \<open>evaluate_generator\<close>: \<open>model.evaluate_generator(test_data)\<close>, a list of
    scalars.
  \<^item> \<open>calc_baseline_acc\<close>: \<open>helper.cv2_util.calc_baseline_acc(test_data, dataset,
    subset)\<close>, a dictionary.
  \<^item> \<open>save_model\<close>: lines 393 to 411 of the notebook, the TensorFlow export of the
    loaded model (\<open>tf\<close>, \<open>builder\<close>, \<open>signature_constants\<close> and
    \<open>tag_constants\<close> are not bound anywhere in the notebook), given what the export
    path holds; it yields the artifact stored at the export path.
\<close>

record ('m, 'g) collaborators =
  load_model :: "content option \<Rightarrow> py_error + 'm"
  build_generator :: "string \<Rightarrow> string \<Rightarrow> string \<Rightarrow> world \<Rightarrow> py_error + 'g"
  evaluate_generator :: "'m \<Rightarrow> 'g \<Rightarrow> py_error + pynum list"
  calc_baseline_acc :: "'g \<Rightarrow> string \<Rightarrow> string \<Rightarrow> world \<Rightarrow> py_error + (string \<Rightarrow> pynum option)"
  save_model :: "'m \<Rightarrow> content option \<Rightarrow> py_error + content"

subsection \<open>\<open>BaselineValidation.run\<close>\<close>


subsection \<open>\<open>Evaluate.run\<close>\<close>

definition Evaluate_run ::
  "('m, 'g) collaborators \<Rightarrow> int \<Rightarrow> string \<Rightarrow> string \<Rightarrow> int \<Rightarrow> string \<Rightarrow> world
     \<Rightarrow> (py_error + unit) \<times> world" where
  "Evaluate_run C dataset_version dataset_name config_name model_version model_name w0 =
     (let self = Evaluate dataset_version dataset_name config_name model_version model_name
      in case output_of self w0 of (out, w1) \<Rightarrow>
         let w2 = makedirs out w1
         in case input self w2 of (in0, w3) \<Rightarrow>
         or_raise (py_index in0 0) w3 (\<lambda>t_model.
         let model_path = path t_model
         in or_raise (load_model C (files w3 model_path)) w3 (\<lambda>model.
         case input self w3 of (in2, w4) \<Rightarrow>
         or_raise (py_index in2 2) w4 (\<lambda>t_dataset.
         let dataset = path t_dataset
         in case input self w4 of (in3, w5) \<Rightarrow>
         or_raise (py_index in3 3) w5 (\<lambda>t_config.
         let config = path t_config
         in or_raise (build_generator C config dataset validation_set w5) w5 (\<lambda>test_data.
         or_raise (evaluate_generator C model test_data) w5 (\<lambda>evaluation.
         case input self w5 of (in1, w6) \<Rightarrow>
         or_raise (py_index in1 1) w6 (\<lambda>t_baseline.
         or_raise (read_json t_baseline w6) w6 (\<lambda>loaded.
         or_raise (py_getitem loaded ''acc'') w6 (\<lambda>baseline_acc.
         or_raise (py_index evaluation 1) w6 (\<lambda>acc.
         if py_gt acc baseline_acc then
           let result = [''acc'' \<mapsto> acc, ''baseline_acc'' \<mapsto> baseline_acc]
           in case output_of self w6 of (out', w7) \<Rightarrow>
                (Inr (), write_target out' (Json result) w7)
         else
           or_raise (fmt_f acc) w6 (\<lambda>shown_acc.
           or_raise (fmt_f baseline_acc) w6 (\<lambda>shown_baseline.
           (Inl (Exception (''Acc '' @ shown_acc @ '' is smaller than baseline acc '' @
                            shown_baseline @ ''!'')), w6))))))))))))))"

subsection \<open>\<open>Export.run\<close>\<close>

definition Export_run ::
  "('m, 'g) collaborators \<Rightarrow> int \<Rightarrow> string \<Rightarrow> string \<Rightarrow> int \<Rightarrow> string \<Rightarrow> world
     \<Rightarrow> (py_error + unit) \<times> world" where
  "Export_run C dataset_version dataset_name config_name model_version model_name w0 =
     (let self = Export dataset_version dataset_name config_name model_version model_name
      in case output_of self w0 of (out, w1) \<Rightarrow>
         let w2 = makedirs out w1
         in case input self w2 of (in1, w3) \<Rightarrow>
         or_raise (py_index in1 1) w3 (\<lambda>t_model.
         let model_path = path t_model
         in or_raise (load_model C (files w3 model_path)) w3 (\<lambda>model.
         case output_of self w3 of (out', w4) \<Rightarrow>
         let export_path = path out'
         in or_raise (save_model C model (files w4 export_path)) w4 (\<lambda>artifact.
            (Inr (), write_target out' artifact w4)))))"

subsection \<open>Derived notions\<close>

text \<open>The path of a task's Target: what \<open>self.output().path\<close> evaluates to.\<close>

definition target_path :: "task \<Rightarrow> string" where
  "target_path t = path (fst (output_of t \<lparr>files = Map.empty, parents_made = {}\<rparr>))"

text \<open>
  What line 336 raises: the \<open>Exception\<close> with the formatted message, or what formatting
  the message raises (the metric is formatted first).
\<close>

definition raised_at_336 :: "pynum \<Rightarrow> pynum \<Rightarrow> py_error" where
  "raised_at_336 acc baseline_acc =
     (case fmt_f acc of
        Inl e \<Rightarrow> e
      | Inr shown_acc \<Rightarrow>
          (case fmt_f baseline_acc of
             Inl e \<Rightarrow> e
           | Inr shown_baseline \<Rightarrow>
               Exception (''Acc '' @ shown_acc @ '' is smaller than baseline acc '' @
                          shown_baseline @ ''!'')))"

text \<open>Luigi's \<open>task_family\<close>: the name of the task's class.\<close>

fun task_family :: "task \<Rightarrow> string" where
  "task_family (DownloadDataset _ _) = ''DownloadDataset''"
| "task_family (ExtractDataset _ _) = ''ExtractDataset''"
| "task_family (Configure _) = ''Configure''"
| "task_family (BaselineValidation _ _ _) = ''BaselineValidation''"
| "task_family (TrainModel _ _ _ _ _) = ''TrainModel''"
| "task_family (Evaluate _ _ _ _ _) = ''Evaluate''"
| "task_family (Export _ _ _ _ _) = ''Export''"

text \<open>The dependency edges: \<open>(d, t)\<close> when \<open>t\<close> requires \<open>d\<close>.\<close>

definition dep_rel :: "(task \<times> task) set" where
  "dep_rel = {(d, t). d \<in> set (requires t)}"

text \<open>The length of the longest chain of dependencies below a task of each class.\<close>

fun depth :: "task \<Rightarrow> nat" where
  "depth (DownloadDataset _ _) = 0"
| "depth (ExtractDataset _ _) = 1"
| "depth (Configure _) = 0"
| "depth (BaselineValidation _ _ _) = 2"
| "depth (TrainModel _ _ _ _ _) = 2"
| "depth (Evaluate _ _ _ _ _) = 3"
| "depth (Export _ _ _ _ _) = 4"

text \<open>The tasks a task depends on, directly or through other tasks, and itself.\<close>

definition reachable :: "task \<Rightarrow> task set" where
  "reachable t = {d. (d, t) \<in> dep_rel\<^sup>*}"

text \<open>The number a string of decimal digits denotes.\<close>

definition digits_val :: "string \<Rightarrow> nat" where
  "digits_val s = foldl (\<lambda>a c. 10 * a + (of_char c - 48)) 0 s"

subsection \<open>The scheduler\<close>

text \<open>
  Modelled from the spec: the Scheduler of section 4.4 (Luigi's scheduler and worker are
  library code, not part of the repository), in its minimal conformant form:
  single-threaded, depth-first, synchronous.

  The error kinds of section 7 that the Scheduler itself assigns, and the
  ExecutionRecord of section 3.
\<close>

datatype sched_error =
    CycleError
  | DependencyFailed
  | PostconditionError
  | ExecutionError py_error

datatype exec_record = NotVisited | InProgress | Complete | Failed sched_error

text \<open>
  The state of one run: the ExecutionRecord of every TaskKey, the world, and the work
  routines invoked so far, in order of invocation.
\<close>

record run_state =
  records :: "task \<Rightarrow> exec_record"
  world :: world
  invoked :: "task list"

definition set_record :: "task \<Rightarrow> exec_record \<Rightarrow> run_state \<Rightarrow> run_state" where
  "set_record t r s = s\<lparr>records := (records s)(t := r)\<rparr>"

text \<open>
  Modelled from the spec: steps 2 to 6 of the algorithm, for a task whose dependencies have
  been resolved. If a dependency is not Complete the task is Failed and its work routine is
  not attempted. If the Target exists the task is Complete and the work routine is skipped.
  Otherwise the parent directories are ensured and the work routine is invoked; an
  exception makes the task Failed, a normal return makes it Complete if the Target now
  exists and Failed with PostconditionError if it does not.
\<close>

definition attempt ::
  "(task \<Rightarrow> world \<Rightarrow> (py_error + unit) \<times> world) \<Rightarrow> task \<Rightarrow> run_state \<Rightarrow> run_state" where
  "attempt work t s =
     (if \<not> list_all (\<lambda>d. records s d = Complete) (requires t)
      then set_record t (Failed DependencyFailed) s
      else case output_of t (world s) of (tg, w1) \<Rightarrow>
        if exists tg w1 then set_record t Complete (s\<lparr>world := w1\<rparr>)
        else case work t (makedirs tg w1) of (r, w2) \<Rightarrow>
          let s' = s\<lparr>world := w2, invoked := invoked s @ [t]\<rparr>
          in (case r of
                Inl e \<Rightarrow> set_record t (Failed (ExecutionError e)) s'
              | Inr _ \<Rightarrow>
                  if exists tg w2 then set_record t Complete s'
                  else set_record t (Failed PostconditionError) s'))"

text \<open>
  Modelled from the spec: step 1 and the recursion of step 2. A Complete task returns at
  once; a task found InProgress closes a cycle; an unvisited task is marked InProgress,
  its dependencies are resolved in declaration order, and the task is attempted. A task
  that is already Failed is not attempted again: its record has terminated (section 3) and
  nothing is retried (section 7). The recursion follows \<open>requires\<close>, along which
  \<open>depth\<close> decreases.
\<close>

function resolve ::
  "(task \<Rightarrow> world \<Rightarrow> (py_error + unit) \<times> world) \<Rightarrow> task \<Rightarrow> run_state \<Rightarrow> run_state" where
  "resolve work t s =
     (case records s t of
        Complete \<Rightarrow> s
      | Failed reason \<Rightarrow> s
      | InProgress \<Rightarrow> set_record t (Failed CycleError) s
      | NotVisited \<Rightarrow>
          attempt work t
            (fold (\<lambda>d s'. resolve work d s') (requires t) (set_record t InProgress s)))"
  by pat_completeness auto
termination
proof (relation "measure (\<lambda>(work, t, s). depth t)")
  show "wf (measure (\<lambda>(work, t, s). depth t))" by simp
next
  fix work :: "task \<Rightarrow> world \<Rightarrow> (py_error + unit) \<times> world"
  fix t d :: task and s s' :: run_state
  assume "d \<in> set (requires t)"
  then show "((work, d, s'), (work, t, s)) \<in> measure (\<lambda>(work, t, s). depth t)"
    by (cases t) auto
qed

text \<open>Modelled from the spec: \<open>run(rootTasks)\<close>, from a state in which nothing is visited.\<close>

definition initial_state :: "world \<Rightarrow> run_state" where
  "initial_state w = \<lparr>records = (\<lambda>t. NotVisited), world = w, invoked = []\<rparr>"

definition run ::
  "(task \<Rightarrow> world \<Rightarrow> (py_error + unit) \<times> world) \<Rightarrow> task list \<Rightarrow> world \<Rightarrow> run_state" where
  "run work roots w = fold (resolve work) roots (initial_state w)"

text \<open>
  What the statements about a run are made of: a record that has terminated; the relation
  between the state before and the state after a piece of the run (work routines are
  invoked only for tasks that were unvisited, each once, and end terminated; terminated
  records stay as they are; no record returns to NotVisited; a task in progress stays so
  or closes a cycle); every invoked task has all its dependencies Complete; a task's
  record has terminated with a given value and its work routine has been invoked a given
  number of times.
\<close>

fun is_final :: "exec_record \<Rightarrow> bool" where
  "is_final Complete = True"
| "is_final (Failed _) = True"
| "is_final _ = False"

definition steps_to :: "run_state \<Rightarrow> run_state \<Rightarrow> bool" where
  "steps_to s s' \<longleftrightarrow>
     (\<exists>new. invoked s' = invoked s @ new \<and> distinct new \<and>
        (\<forall>u \<in> set new. records s u = NotVisited \<and> is_final (records s' u))) \<and>
     (\<forall>u. is_final (records s u) \<longrightarrow> records s' u = records s u) \<and>
     (\<forall>u. records s' u = NotVisited \<longrightarrow> records s u = NotVisited) \<and>
     (\<forall>u. records s u = InProgress \<longrightarrow>
          records s' u = InProgress \<or> records s' u = Failed CycleError)"

definition ordered :: "run_state \<Rightarrow> bool" where
  "ordered s \<longleftrightarrow>
     list_all (\<lambda>t. list_all (\<lambda>d. records s d = Complete) (requires t)) (invoked s)"

definition settled :: "task \<Rightarrow> exec_record \<Rightarrow> nat \<Rightarrow> run_state \<Rightarrow> bool" where
  "settled e r n s \<longleftrightarrow> records s e = r \<and> is_final r \<and> count_list (invoked s) e = n"

text \<open>
  For a run that starts in the world \<open>w\<close>: the download completes when its Target
  exists, or its work routine returns normally and its Target exists afterwards; the world
  the download leaves is \<open>w\<close> in the first case and the one its work routine leaves in
  the second; the extraction completes when its Target exists in that world, or its work
  routine returns normally and its Target exists afterwards.
\<close>

definition download_completes ::
  "(task \<Rightarrow> world \<Rightarrow> (py_error + unit) \<times> world) \<Rightarrow> int \<Rightarrow> string \<Rightarrow> world \<Rightarrow> bool" where
  "download_completes work dv dn w =
     (let tg = \<lparr>path = target_path (DownloadDataset dv dn)\<rparr>
      in if exists tg w then True
         else case work (DownloadDataset dv dn) (makedirs tg w) of
                (Inl e, w1) \<Rightarrow> False
              | (Inr u, w1) \<Rightarrow> exists tg w1)"

definition after_download ::
  "(task \<Rightarrow> world \<Rightarrow> (py_error + unit) \<times> world) \<Rightarrow> int \<Rightarrow> string \<Rightarrow> world \<Rightarrow> world" where
  "after_download work dv dn w =
     (let tg = \<lparr>path = target_path (DownloadDataset dv dn)\<rparr>
      in if exists tg w then w
         else snd (work (DownloadDataset dv dn) (makedirs tg w)))"

definition extraction_completes ::
  "(task \<Rightarrow> world \<Rightarrow> (py_error + unit) \<times> world) \<Rightarrow> int \<Rightarrow> string \<Rightarrow> world \<Rightarrow> bool" where
  "extraction_completes work dv dn w =
     (let tg = \<lparr>path = target_path (ExtractDataset dv dn)\<rparr>;
          w1 = after_download work dv dn w
      in if exists tg w1 then True
         else case work (ExtractDataset dv dn) (makedirs tg w1) of
                (Inl e, w2) \<Rightarrow> False
              | (Inr u, w2) \<Rightarrow> exists tg w2)"

subsection \<open>A sample run\<close>

text \<open>
  Collaborators and a world on which the work routines can be evaluated: the model file
  and the baseline file of the default parameters exist, the model handle is the number in
  the model file, and the evaluation returns a loss of \<open>0.25\<close> and the given accuracy.
\<close>

definition sample_collaborators :: "pynum \<Rightarrow> (nat, nat) collaborators" where
  "sample_collaborators acc =
     \<lparr>load_model = (\<lambda>c. case c of Some (Blob k) \<Rightarrow> Inr k | _ \<Rightarrow> Inl IOError),
      build_generator = (\<lambda>config dataset part w. Inr 0),
      evaluate_generator = (\<lambda>model test_data. Inr [Fin (1 / 4), acc]),
      calc_baseline_acc = (\<lambda>test_data dataset part w. Inr [''acc'' \<mapsto> Fin (8 / 10)]),
      save_model = (\<lambda>model c. Inr (Blob (Suc model)))\<rparr>"

definition sample_world :: "(string \<Rightarrow> pynum option) \<Rightarrow> world" where
  "sample_world baseline =
     \<lparr>files = [''model/1/keras_model.h5'' \<mapsto> Blob 7,
               ''baseline/find_round_objects.json.json'' \<mapsto> Json baseline],
      parents_made = {}\<rparr>"


text \<open>
  A work routine that succeeds and produces its Target, for every task; an empty world;
  and a world in which the archive has been downloaded and extracted.
\<close>

definition touch :: "task \<Rightarrow> world \<Rightarrow> (py_error + unit) \<times> world" where
  "touch t w = (Inr (), write_target \<lparr>path = target_path t\<rparr> (Blob 0) w)"

definition no_files :: world where
  "no_files = \<lparr>files = Map.empty, parents_made = {}\<rparr>"

definition extracted_world :: world where
  "extracted_world =
     \<lparr>files = [''/tmp/dataset_v1.zip'' \<mapsto> Blob 0, ''datasets/fruit-images-dataset/1'' \<mapsto> Blob 0],
      parents_made = {}\<rparr>"

section \<open>Properties\<close>

subsection \<open>Decimal rendering\<close>

lemma lt10_cases: "d < 10 \<Longrightarrow> d \<in> {0, 1, 2, 3, 4, 5, 6, 7, 8, 9::nat}"
  by auto

lemma digit_char_val: "d < 10 \<Longrightarrow> of_char (digit_char d) = 48 + d"
  by (drule lt10_cases) (auto simp: digit_char_def)

lemma digit_char_in: "d < 10 \<Longrightarrow> digit_char d \<in> set ''0123456789''"
  by (drule lt10_cases) (auto simp: digit_char_def)

lemma digits_val_snoc: "digits_val (s @ [c]) = 10 * digits_val s + (of_char c - 48)"
  by (simp add: digits_val_def)

lemma digits_val_show_nat: "digits_val (show_nat n) = n"
proof (induction n rule: show_nat.induct)
  case (1 n)
  show ?case
  proof (cases "n < 10")
    case True
    then show ?thesis
      by (subst show_nat.simps) (simp add: digits_val_def digit_char_val)
  next
    case False
    with 1 have ih: "digits_val (show_nat (n div 10)) = n div 10" by simp
    have m: "n mod 10 < 10" by simp
    have "show_nat n = show_nat (n div 10) @ [digit_char (n mod 10)]"
      using False by (subst show_nat.simps) simp
    then have "digits_val (show_nat n) = 10 * (n div 10) + (of_char (digit_char (n mod 10)) - 48)"
      using ih by (simp add: digits_val_snoc)
    also have "\<dots> = 10 * (n div 10) + n mod 10"
      by (simp only: digit_char_val [OF m] add_diff_cancel_left')
    also have "\<dots> = n" by simp
    finally show ?thesis .
  qed
qed


lemma show_nat_inj:
  assumes "show_nat m = show_nat n"
  shows "m = n"
proof -
  from assms have "digits_val (show_nat m) = digits_val (show_nat n)"
    by (rule arg_cong)
  then show ?thesis
    by (simp only: digits_val_show_nat)
qed

lemma show_nat_digits: "set (show_nat n) \<subseteq> set ''0123456789''"
proof (induction n rule: show_nat.induct)
  case (1 n)
  show ?case
  proof (cases "n < 10")
    case True
    then show ?thesis
      using digit_char_in [of n] by (subst show_nat.simps) simp
  next
    case False
    with 1 have "set (show_nat (n div 10)) \<subseteq> set ''0123456789''" by simp
    moreover have "digit_char (n mod 10) \<in> set ''0123456789''"
      by (rule digit_char_in) simp
    ultimately show ?thesis using False
      by (subst show_nat.simps) simp
  qed
qed

lemma show_nat_nonempty: "show_nat n \<noteq> []"
  by (subst show_nat.simps) simp

lemma show_nat_avoids:
  assumes "c \<notin> set ''0123456789''"
  shows "c \<notin> set (show_nat n)"
  using assms show_nat_digits [of n] by blast

lemma fmt_d_avoids:
  assumes "c \<notin> set ''0123456789''" and "c \<noteq> CHR ''-''"
  shows "c \<notin> set (fmt_d i)"
proof (cases "i < 0")
  case True
  then have "set (fmt_d i) = insert CHR ''-'' (set (show_nat (nat (- i))))"
    by (simp add: fmt_d_def)
  with assms show_nat_avoids [OF assms(1)] show ?thesis by blast
next
  case False
  then have "fmt_d i = show_nat (nat i)"
    by (simp add: fmt_d_def)
  with show_nat_avoids [OF assms(1)] show ?thesis by simp
qed

lemma slash_not_in_fmt_d: "CHR ''/'' \<notin> set (fmt_d i)"
  by (rule fmt_d_avoids) simp_all

lemma v_not_in_fmt_d: "CHR ''v'' \<notin> set (fmt_d i)"
  by (rule fmt_d_avoids) simp_all

lemma fmt_d_inj: "fmt_d i = fmt_d j \<Longrightarrow> i = j"
proof -
  assume eq: "fmt_d i = fmt_d j"
  have no_minus: "\<And>n. hd (show_nat n) \<noteq> CHR ''-''"
  proof -
    fix n
    have "hd (show_nat n) \<in> set (show_nat n)" using show_nat_nonempty by simp
    moreover have "CHR ''-'' \<notin> set (show_nat n)"
      by (rule show_nat_avoids) simp
    ultimately show "hd (show_nat n) \<noteq> CHR ''-''" by metis
  qed
  show ?thesis
  proof (cases "i < 0")
    case True
    show ?thesis
    proof (cases "j < 0")
      case True
      with \<open>i < 0\<close> eq have "show_nat (nat (- i)) = show_nat (nat (- j))"
        by (simp add: fmt_d_def)
      then have "nat (- i) = nat (- j)" by (rule show_nat_inj)
      with True \<open>i < 0\<close> show ?thesis by simp
    next
      case False
      with \<open>i < 0\<close> eq have "CHR ''-'' # show_nat (nat (- i)) = show_nat (nat j)"
        by (simp add: fmt_d_def)
      then have "hd (show_nat (nat j)) = CHR ''-''" using list.sel(1) [of "CHR ''-''" "show_nat (nat (- i))"] by simp
      with no_minus show ?thesis by blast
    qed
  next
    case False
    show ?thesis
    proof (cases "j < 0")
      case True
      with \<open>\<not> i < 0\<close> eq have "show_nat (nat i) = CHR ''-'' # show_nat (nat (- j))"
        by (simp add: fmt_d_def)
      then have "hd (show_nat (nat i)) = CHR ''-''" by simp
      with no_minus show ?thesis by blast
    next
      case False
      with \<open>\<not> i < 0\<close> eq have "show_nat (nat i) = show_nat (nat j)"
        by (simp add: fmt_d_def)
      then have "nat i = nat j" by (rule show_nat_inj)
      with False \<open>\<not> i < 0\<close> show ?thesis by simp
    qed
  qed
qed

lemma split_at_first:
  assumes "d @ c # b = d' @ c # b'" and "c \<notin> set d" and "c \<notin> set d'"
  shows "d = d' \<and> b = b'"
  using assms
proof (induction d arbitrary: d')
  case Nil
  then show ?case by (cases d') auto
next
  case (Cons x d)
  then show ?case by (cases d') auto
qed

lemma split_at_last:
  assumes "a @ c # d = a' @ c # d'" and "c \<notin> set d" and "c \<notin> set d'"
  shows "a = a' \<and> d = d'"
proof -
  from assms(1) have "rev (a @ c # d) = rev (a' @ c # d')" by simp
  then have "rev d @ c # rev a = rev d' @ c # rev a'" by simp
  then have "rev d = rev d' \<and> rev a = rev a'"
    using assms(2,3) by (intro split_at_first) auto
  then show ?thesis by simp
qed

subsection \<open>Numbers\<close>

lemma bitlen_le: "a < 2 ^ j \<Longrightarrow> bitlen a \<le> j"
proof (induction j arbitrary: a)
  case 0
  then show ?case by (simp add: bitlen.simps)
next
  case (Suc j)
  show ?case
  proof (cases "a = 0")
    case True
    then show ?thesis by (simp add: bitlen.simps)
  next
    case False
    from Suc.prems have "a div 2 < 2 ^ j" by simp
    then have "bitlen (a div 2) \<le> j" by (rule Suc.IH)
    with False show ?thesis by (subst bitlen.simps) simp
  qed
qed

lemma bitlen_gt: "a < 2 ^ bitlen a"
proof (induction a rule: bitlen.induct)
  case (1 n)
  show ?case
  proof (cases "n = 0")
    case True
    then show ?thesis by (simp add: bitlen.simps)
  next
    case False
    with 1 have "n div 2 < 2 ^ bitlen (n div 2)" by simp
    then have "n < 2 * 2 ^ bitlen (n div 2)" by linarith
    with False show ?thesis by (subst bitlen.simps) simp
  qed
qed

lemma bitlen_lower: "0 < a \<Longrightarrow> 2 ^ (bitlen a - 1) \<le> a"
proof (induction a rule: bitlen.induct)
  case (1 n)
  show ?case
  proof (cases "n div 2 = 0")
    case True
    with "1.prems" have "n = 1" by presburger
    then show ?thesis by (simp add: bitlen.simps)
  next
    case False
    with 1 have ih: "2 ^ (bitlen (n div 2) - 1) \<le> n div 2" by simp
    from False have pos: "0 < bitlen (n div 2)" by (subst bitlen.simps) simp
    from "1.prems" have "bitlen n = Suc (bitlen (n div 2))" by (subst bitlen.simps) simp
    then have "(2::nat) ^ (bitlen n - 1) = 2 * 2 ^ (bitlen (n div 2) - 1)"
      using pos by (cases "bitlen (n div 2)") simp_all
    also have "\<dots> \<le> 2 * (n div 2)" using ih by simp
    also have "\<dots> \<le> n" by simp
    finally show ?thesis .
  qed
qed

lemma round_to_53_bits_small:
  assumes "a < 2 ^ 53"
  shows "round_to_53_bits a = a"
proof -
  from assms have "bitlen a \<le> 53" by (rule bitlen_le)
  then have "bitlen a - 53 = 0" by simp
  then show ?thesis by (simp add: round_to_53_bits_def)
qed

lemma float_of_int_small:
  assumes "\<bar>n\<bar> < 2 ^ 53"
  shows "float_of_int n = Inr (of_int n)"
proof -
  from assms have a: "nat \<bar>n\<bar> < 2 ^ 53"
    by (simp add: nat_less_iff)
  then have r: "round_to_53_bits (nat \<bar>n\<bar>) = nat \<bar>n\<bar>"
    by (rule round_to_53_bits_small)
  have "(2::nat) ^ 53 \<le> 2 ^ 1024"
    by (rule power_increasing) simp_all
  with a have "\<not> nat \<bar>n\<bar> \<ge> 2 ^ 1024" by linarith
  then show ?thesis
    by (simp add: float_of_int_def r Let_def)
qed

lemma round_to_53_bits_lower:
  assumes "2 ^ j \<le> a" and "53 \<le> j"
  shows "2 ^ j \<le> round_to_53_bits a"
proof -
  define k where "k = bitlen a - 53"
  define m where "m = a div 2 ^ k"
  have "(0::nat) < 2 ^ j" by simp
  with assms(1) have pos: "0 < a" by linarith
  from assms(1) bitlen_gt [of a] have "(2::nat) ^ j < 2 ^ bitlen a" by linarith
  then have jl: "j < bitlen a" by (simp add: power_strict_increasing_iff)
  with assms(2) have k: "bitlen a - 1 = k + 52" by (simp add: k_def)
  from pos have "2 ^ (bitlen a - 1) \<le> a" by (rule bitlen_lower)
  then have "(2::nat) ^ (k + 52) \<le> a" by (simp only: k)
  then have "(2::nat) ^ 52 * 2 ^ k \<le> a" by (simp only: power_add mult.commute)
  then have m: "2 ^ 52 \<le> m"
    unfolding m_def by (simp only: less_eq_div_iff_mult_less_eq zero_less_power zero_less_numeral)
  from jl have "j \<le> k + 52" using k by linarith
  then have "(2::nat) ^ j \<le> 2 ^ (k + 52)"
    by (intro power_increasing) simp_all
  also have "\<dots> = 2 ^ 52 * 2 ^ k" by (simp only: power_add mult.commute)
  also have "\<dots> \<le> m * 2 ^ k" using m by (rule mult_le_mono1)
  also have "\<dots> \<le> round_to_53_bits a"
    by (simp add: round_to_53_bits_def Let_def k_def m_def)
  finally show ?thesis .
qed

lemma round_to_53_bits_upper:
  assumes "a < 2 ^ j" and "53 \<le> j"
  shows "round_to_53_bits a \<le> 2 ^ j"
proof (cases "bitlen a \<le> 53")
  case True
  then have "bitlen a - 53 = 0" by simp
  then have "round_to_53_bits a = a" by (simp add: round_to_53_bits_def)
  with assms(1) show ?thesis by simp
next
  case False
  define k where "k = bitlen a - 53"
  define m where "m = a div 2 ^ k"
  from False have k: "bitlen a = k + 53" by (simp add: k_def)
  from assms(1) have "bitlen a \<le> j" by (rule bitlen_le)
  with k have kj: "k + 53 \<le> j" by simp
  from bitlen_gt [of a] have "a < 2 ^ 53 * 2 ^ k" by (simp only: k power_add mult.commute)
  then have "m < 2 ^ 53" unfolding m_def by (rule less_mult_imp_div_less)
  then have m1: "m + 1 \<le> 2 ^ 53" by linarith
  have "round_to_53_bits a \<le> (m + 1) * 2 ^ k"
    by (simp add: round_to_53_bits_def Let_def k_def m_def)
  also have "\<dots> \<le> 2 ^ 53 * 2 ^ k" using m1 by (rule mult_le_mono1)
  also have "\<dots> = 2 ^ (k + 53)" by (simp only: power_add mult.commute)
  also have "\<dots> \<le> 2 ^ j" using kj by (intro power_increasing) simp_all
  finally show ?thesis .
qed

lemma float_of_int_fits:
  assumes "\<bar>n\<bar> < 2 ^ 1023"
  shows "\<exists>q. float_of_int n = Inr q"
proof -
  from assms have "nat \<bar>n\<bar> < 2 ^ 1023"
    by (simp add: nat_less_iff)
  then have "round_to_53_bits (nat \<bar>n\<bar>) \<le> 2 ^ 1023"
    by (rule round_to_53_bits_upper) simp
  moreover have "(2::nat) ^ 1023 < 2 ^ 1024"
    by (rule power_strict_increasing) simp_all
  ultimately have "\<not> round_to_53_bits (nat \<bar>n\<bar>) \<ge> 2 ^ 1024" by linarith
  then show ?thesis
    by (simp add: float_of_int_def Let_def)
qed

lemma float_of_int_overflow:
  assumes "2 ^ 1024 \<le> \<bar>n\<bar>"
  shows "float_of_int n = Inl OverflowError"
proof -
  from assms have "2 ^ 1024 \<le> nat \<bar>n\<bar>"
    by (simp add: le_nat_iff)
  then have "2 ^ 1024 \<le> round_to_53_bits (nat \<bar>n\<bar>)"
    by (rule round_to_53_bits_lower) simp
  then show ?thesis
    by (simp add: float_of_int_def Let_def)
qed


lemma fmt_f_overflow:
  assumes "2 ^ 1024 \<le> \<bar>n\<bar>"
  shows "fmt_f (PyInt n) = Inl OverflowError"
  by (simp add: float_of_int_overflow [OF assms])

lemma fmt_f_fails:
  assumes "fmt_f x = Inl e"
  shows "e = OverflowError \<and> (\<exists>n. x = PyInt n \<and> 2 ^ 1023 \<le> \<bar>n\<bar>)"
proof (cases x)
  case (PyInt n)
  with assms have f: "float_of_int n = Inl e"
    by (simp split: sum.splits)
  then have "e = OverflowError"
    by (simp add: float_of_int_def Let_def split: if_splits)
  moreover have "2 ^ 1023 \<le> \<bar>n\<bar>"
  proof (rule ccontr)
    assume "\<not> 2 ^ 1023 \<le> \<bar>n\<bar>"
    then have "\<bar>n\<bar> < 2 ^ 1023" by simp
    then obtain q where "float_of_int n = Inr q" using float_of_int_fits by blast
    with f show False by simp
  qed
  ultimately show ?thesis using PyInt by simp
qed (use assms in simp_all)

lemma fixed6_07: "fixed6 (7 / 10) = ''0.700000''"
proof -
  have r: "round_half_even (700000 :: rat) = 700000"
    by (simp add: round_half_even_def Let_def)
  have s0: "show_nat 0 = ''0''"
    by (simp add: show_nat.simps digit_char_def)
  have s1: "show_nat 700000 = ''700000''"
    by (simp add: show_nat.simps digit_char_def)
  show ?thesis
    by (simp add: fixed6_def r s0 s1 pad6_def)
qed

lemma fixed6_08: "fixed6 (8 / 10) = ''0.800000''"
proof -
  have r: "round_half_even (800000 :: rat) = 800000"
    by (simp add: round_half_even_def Let_def)
  have s0: "show_nat 0 = ''0''"
    by (simp add: show_nat.simps digit_char_def)
  have s1: "show_nat 800000 = ''800000''"
    by (simp add: show_nat.simps digit_char_def)
  show ?thesis
    by (simp add: fixed6_def r s0 s1 pad6_def)
qed

lemma fmt_f_07: "fmt_f (Fin (7 / 10)) = Inr ''0.700000''"
  by (simp only: fmt_f.simps fixed6_07)

lemma fmt_f_08: "fmt_f (Fin (8 / 10)) = Inr ''0.800000''"
  by (simp only: fmt_f.simps fixed6_08)

subsection \<open>Targets and worlds\<close>

lemma output_of_eq: "output_of t w = (\<lparr>path = target_path t\<rparr>, w)"
  by (cases t) (simp_all add: target_path_def LocalTarget_def)

lemma outputs_eq: "outputs ts w = (map (\<lambda>t. \<lparr>path = target_path t\<rparr>) ts, w)"
  by (induction ts arbitrary: w) (simp_all add: output_of_eq del: output_of.simps)

lemma input_eq: "input t w = (map (\<lambda>d. \<lparr>path = target_path d\<rparr>) (requires t), w)"
  by (simp add: input_def outputs_eq)

lemma target_path_simps:
  "target_path (DownloadDataset dv dn) = ''/tmp/'' @ dn @ ''_v'' @ fmt_d dv @ ''.zip''"
  "target_path (ExtractDataset dv dn) = ''datasets/fruit-images-dataset/'' @ fmt_d dv"
  "target_path (Configure cn) = ''configurations/'' @ cn @ ''.pickle''"
  "target_path (BaselineValidation dv dn cn) = ''baseline/find_round_objects.json.json''"
  "target_path (TrainModel dv dn cn mv mn) = ''model/'' @ fmt_d mv @ ''/'' @ mn @ ''.h5''"
  "target_path (Evaluate dv dn cn mv mn) = ''evaluation/'' @ fmt_d mv @ ''/'' @ mn @ ''.json''"
  "target_path (Export dv dn cn mv mn) = ''serving/'' @ mn @ ''/'' @ fmt_d mv"
  by (simp_all add: target_path_def LocalTarget_def file_fomat_def baseline_name_def)

lemma files_makedirs: "files (makedirs tg w) = files w"
  by (simp add: makedirs_def)

lemma read_json_makedirs: "read_json tg (makedirs tg' w) = read_json tg w"
  by (simp add: read_json_def files_makedirs)

subsection \<open>The work routines, unfolded\<close>

lemma Evaluate_run_unfold:
  "Evaluate_run C dv dn cn mv mn w =
     (let w' = makedirs \<lparr>path = target_path (Evaluate dv dn cn mv mn)\<rparr> w
      in case load_model C (files w (target_path (TrainModel dv dn cn mv mn))) of
           Inl e \<Rightarrow> (Inl e, w')
         | Inr model \<Rightarrow>
      (case build_generator C (target_path (Configure cn)) (target_path (ExtractDataset dv dn))
              validation_set w' of
           Inl e \<Rightarrow> (Inl e, w')
         | Inr test_data \<Rightarrow>
      (case evaluate_generator C model test_data of
           Inl e \<Rightarrow> (Inl e, w')
         | Inr evaluation \<Rightarrow>
      (case read_json \<lparr>path = target_path (BaselineValidation dv dn cn)\<rparr> w of
           Inl e \<Rightarrow> (Inl e, w')
         | Inr loaded \<Rightarrow>
      (case loaded ''acc'' of
           None \<Rightarrow> (Inl (KeyError ''acc''), w')
         | Some baseline_acc \<Rightarrow>
      (case py_index evaluation 1 of
           Inl e \<Rightarrow> (Inl e, w')
         | Inr acc \<Rightarrow>
           if py_gt acc baseline_acc
           then (Inr (), write_target \<lparr>path = target_path (Evaluate dv dn cn mv mn)\<rparr>
                           (Json [''acc'' \<mapsto> acc, ''baseline_acc'' \<mapsto> baseline_acc]) w')
           else (Inl (raised_at_336 acc baseline_acc), w')))))))"
  by (simp add: Evaluate_run_def input_eq output_of_eq py_index_def py_getitem_def or_raise_def
        raised_at_336_def Let_def files_makedirs read_json_makedirs
      del: output_of.simps split: sum.split option.split)

lemma Export_run_unfold:
  "Export_run C dv dn cn mv mn w =
     (let w' = makedirs \<lparr>path = target_path (Export dv dn cn mv mn)\<rparr> w
      in case load_model C (files w (target_path (TrainModel dv dn cn mv mn))) of
           Inl e \<Rightarrow> (Inl e, w')
         | Inr model \<Rightarrow>
      (case save_model C model (files w (target_path (Export dv dn cn mv mn))) of
           Inl e \<Rightarrow> (Inl e, w')
         | Inr artifact \<Rightarrow>
           (Inr (), write_target \<lparr>path = target_path (Export dv dn cn mv mn)\<rparr> artifact w')))"
  by (simp add: Export_run_def input_eq output_of_eq py_index_def or_raise_def
        Let_def files_makedirs
      del: output_of.simps split: sum.split option.split)


subsection \<open>The sample run\<close>

lemma fmt_d_1: "fmt_d 1 = ''1''"
  by (simp add: fmt_d_def show_nat.simps digit_char_def)

lemma sample_paths:
  "target_path (TrainModel 1 ''dataset'' ''standard'' 1 ''keras_model'') = ''model/1/keras_model.h5''"
  "target_path (Evaluate 1 ''dataset'' ''standard'' 1 ''keras_model'') = ''evaluation/1/keras_model.json''"
  "target_path (Export 1 ''dataset'' ''standard'' 1 ''keras_model'') = ''serving/keras_model/1''"
  "target_path (ExtractDataset 1 ''dataset'') = ''datasets/fruit-images-dataset/1''"
  "target_path (DownloadDataset 1 ''dataset'') = ''/tmp/dataset_v1.zip''"
  "target_path (Configure ''standard'') = ''configurations/standard.pickle''"
  by (simp_all add: target_path_simps fmt_d_1)

lemma sample_load_model:
  "load_model (sample_collaborators a)
     (files (sample_world b) (target_path (TrainModel 1 ''dataset'' ''standard'' 1 ''keras_model''))) = Inr 7"
  by (simp add: sample_paths sample_collaborators_def sample_world_def)

lemma sample_build_generator:
  "build_generator (sample_collaborators a) config dataset part w = Inr 0"
  by (simp add: sample_collaborators_def)

lemma sample_evaluate_generator:
  "evaluate_generator (sample_collaborators a) model test_data = Inr [Fin (1 / 4), a]"
  by (simp add: sample_collaborators_def)

lemma sample_read_json:
  "read_json \<lparr>path = target_path (BaselineValidation 1 ''dataset'' ''standard'')\<rparr> (sample_world b) = Inr b"
  by (simp add: read_json_def target_path_simps sample_world_def)

lemma Evaluate_run_result:
  assumes "load_model C (files w (target_path (TrainModel dv dn cn mv mn))) = Inr model"
    and "build_generator C (target_path (Configure cn)) (target_path (ExtractDataset dv dn))
           validation_set (makedirs \<lparr>path = target_path (Evaluate dv dn cn mv mn)\<rparr> w) = Inr test_data"
    and "evaluate_generator C model test_data = Inr evaluation"
    and "py_index evaluation 1 = Inr acc"
    and "read_json \<lparr>path = target_path (BaselineValidation dv dn cn)\<rparr> w = Inr loaded"
    and "loaded ''acc'' = Some baseline_acc"
  shows "Evaluate_run C dv dn cn mv mn w =
           (if py_gt acc baseline_acc
            then (Inr (), write_target \<lparr>path = target_path (Evaluate dv dn cn mv mn)\<rparr>
                           (Json [''acc'' \<mapsto> acc, ''baseline_acc'' \<mapsto> baseline_acc])
                           (makedirs \<lparr>path = target_path (Evaluate dv dn cn mv mn)\<rparr> w))
            else (Inl (raised_at_336 acc baseline_acc),
                  makedirs \<lparr>path = target_path (Evaluate dv dn cn mv mn)\<rparr> w))"
  using assms by (simp add: Evaluate_run_unfold Let_def)

lemma raised_at_336_shown:
  assumes "fmt_f acc = Inr shown_acc" and "fmt_f baseline_acc = Inr shown_baseline"
  shows "raised_at_336 acc baseline_acc =
           Exception (''Acc '' @ shown_acc @ '' is smaller than baseline acc '' @
                      shown_baseline @ ''!'')"
  using assms by (simp add: raised_at_336_def)

lemma raised_at_336_07_08:
  "raised_at_336 (Fin (7 / 10)) (Fin (8 / 10)) =
     Exception ''Acc 0.700000 is smaller than baseline acc 0.800000!''"
proof -
  have "raised_at_336 (Fin (7 / 10)) (Fin (8 / 10)) =
          Exception (''Acc '' @ ''0.700000'' @ '' is smaller than baseline acc '' @
                     ''0.800000'' @ ''!'')"
    using fmt_f_07 fmt_f_08 by (rule raised_at_336_shown)
  then show ?thesis by simp
qed

lemma raised_at_336_overflow:
  assumes "fmt_f acc = Inr shown_acc" and "fmt_f baseline_acc = Inl e"
  shows "raised_at_336 acc baseline_acc = e"
  using assms by (simp add: raised_at_336_def)



subsection \<open>The dependency graph\<close>

lemma requires_depth: "d \<in> set (requires t) \<Longrightarrow> depth d < depth t"
  by (cases t) auto

lemma wf_dep_rel: "wf dep_rel"
proof (rule wf_subset)
  show "wf (measure depth)" by simp
  show "dep_rel \<subseteq> measure depth"
    by (auto simp: dep_rel_def requires_depth)
qed

lemma reachable_unfold: "reachable t = insert t (\<Union>d \<in> set (requires t). reachable d)"
proof (rule set_eqI)
  fix e
  show "e \<in> reachable t \<longleftrightarrow> e \<in> insert t (\<Union>d \<in> set (requires t). reachable d)"
  proof
    assume "e \<in> reachable t"
    then have "(e, t) \<in> dep_rel\<^sup>*" by (simp add: reachable_def)
    then show "e \<in> insert t (\<Union>d \<in> set (requires t). reachable d)"
    proof (cases rule: rtrancl.cases)
      case rtrancl_refl
      then show ?thesis by simp
    next
      case (rtrancl_into_rtrancl d)
      then have "d \<in> set (requires t)" and "e \<in> reachable d"
        by (simp_all add: dep_rel_def reachable_def)
      then show ?thesis by blast
    qed
  next
    assume "e \<in> insert t (\<Union>d \<in> set (requires t). reachable d)"
    then consider "e = t" | d where "d \<in> set (requires t)" and "e \<in> reachable d"
      by blast
    then show "e \<in> reachable t"
    proof cases
      case 1
      then show ?thesis by (simp add: reachable_def)
    next
      case 2
      then have "(e, d) \<in> dep_rel\<^sup>*" and "(d, t) \<in> dep_rel"
        by (simp_all add: dep_rel_def reachable_def)
      then show ?thesis
        by (simp add: reachable_def rtrancl.rtrancl_into_rtrancl)
    qed
  qed
qed

lemma finite_reachable: "finite (reachable t)"
proof (induction t rule: wf_induct_rule [OF wf_dep_rel])
  case (1 t)
  then have "\<And>d. d \<in> set (requires t) \<Longrightarrow> finite (reachable d)"
    by (simp add: dep_rel_def)
  then show ?case
    by (subst reachable_unfold) simp
qed

lemma reachable_DownloadDataset: "reachable (DownloadDataset dv dn) = {DownloadDataset dv dn}"
  by (subst reachable_unfold) simp

lemma reachable_Configure: "reachable (Configure cn) = {Configure cn}"
  by (subst reachable_unfold) simp

lemma reachable_ExtractDataset:
  "reachable (ExtractDataset dv dn) = {ExtractDataset dv dn, DownloadDataset dv dn}"
  by (subst reachable_unfold) (simp add: reachable_DownloadDataset)

lemma reachable_TrainModel:
  "reachable (TrainModel dv dn cn mv mn) =
     {TrainModel dv dn cn mv mn, ExtractDataset dv dn, DownloadDataset dv dn, Configure cn}"
  by (subst reachable_unfold) (auto simp: reachable_ExtractDataset reachable_Configure)

lemma reachable_BaselineValidation:
  "reachable (BaselineValidation dv dn cn) =
     {BaselineValidation dv dn cn, ExtractDataset dv dn, DownloadDataset dv dn, Configure cn}"
  by (subst reachable_unfold) (auto simp: reachable_ExtractDataset reachable_Configure)

lemma reachable_Evaluate:
  "reachable (Evaluate dv dn cn mv mn) =
     {Evaluate dv dn cn mv mn, TrainModel dv dn cn mv mn, BaselineValidation dv dn cn,
      ExtractDataset dv dn, DownloadDataset dv dn, Configure cn}"
  by (subst reachable_unfold)
     (auto simp: reachable_ExtractDataset reachable_Configure reachable_TrainModel
        reachable_BaselineValidation)

subsection \<open>Target paths\<close>

lemma family_path:
  assumes "task_family t \<noteq> task_family t'"
  shows "target_path t \<noteq> target_path t'"
  using assms by (cases t; cases t') (simp_all add: target_path_simps)

lemma DownloadDataset_path_inj:
  "target_path (DownloadDataset v n) = target_path (DownloadDataset v' n') \<longleftrightarrow> v = v' \<and> n = n'"
proof
  assume "target_path (DownloadDataset v n) = target_path (DownloadDataset v' n')"
  then have "(n @ ''_'') @ CHR ''v'' # fmt_d v = (n' @ ''_'') @ CHR ''v'' # fmt_d v'"
    by (simp add: target_path_simps)
  then have "n @ ''_'' = n' @ ''_'' \<and> fmt_d v = fmt_d v'"
    by (rule split_at_last) (rule v_not_in_fmt_d)+
  then show "v = v' \<and> n = n'"
    by (simp add: fmt_d_inj)
next
  assume "v = v' \<and> n = n'"
  then show "target_path (DownloadDataset v n) = target_path (DownloadDataset v' n')" by simp
qed

lemma version_name_inj:
  assumes "fmt_d v @ ''/'' @ n @ ext = fmt_d v' @ ''/'' @ n' @ ext"
  shows "v = v' \<and> n = n'"
proof -
  from assms have "fmt_d v @ CHR ''/'' # (n @ ext) = fmt_d v' @ CHR ''/'' # (n' @ ext)"
    by simp
  then have "fmt_d v = fmt_d v' \<and> n @ ext = n' @ ext"
    by (rule split_at_first) (rule slash_not_in_fmt_d)+
  then show ?thesis
    by (simp add: fmt_d_inj)
qed

lemma name_version_inj:
  assumes "n @ ''/'' @ fmt_d v = n' @ ''/'' @ fmt_d v'"
  shows "v = v' \<and> n = n'"
proof -
  from assms have "n @ CHR ''/'' # fmt_d v = n' @ CHR ''/'' # fmt_d v'"
    by simp
  then have "n = n' \<and> fmt_d v = fmt_d v'"
    by (rule split_at_last) (rule slash_not_in_fmt_d)+
  then show ?thesis
    by (simp add: fmt_d_inj)
qed

subsection \<open>The scheduler\<close>

declare resolve.simps [simp del]

lemma resolve_Complete: "records s t = Complete \<Longrightarrow> resolve work t s = s"
  by (simp add: resolve.simps)

lemma resolve_Failed: "records s t = Failed e \<Longrightarrow> resolve work t s = s"
  by (simp add: resolve.simps)

lemma resolve_InProgress:
  "records s t = InProgress \<Longrightarrow> resolve work t s = set_record t (Failed CycleError) s"
  by (simp add: resolve.simps)

lemma resolve_NotVisited:
  "records s t = NotVisited \<Longrightarrow>
   resolve work t s = attempt work t (fold (resolve work) (requires t) (set_record t InProgress s))"
  by (simp add: resolve.simps)

lemma steps_to_refl: "steps_to s s"
  by (simp add: steps_to_def)

lemma steps_to_trans:
  assumes "steps_to s s'" and "steps_to s' s''"
  shows "steps_to s s''"
proof -
  from assms(1) obtain new where
    n1: "invoked s' = invoked s @ new" "distinct new"
        "\<forall>u \<in> set new. records s u = NotVisited \<and> is_final (records s' u)"
    and f1: "\<forall>u. is_final (records s u) \<longrightarrow> records s' u = records s u"
    and v1: "\<forall>u. records s' u = NotVisited \<longrightarrow> records s u = NotVisited"
    and p1: "\<forall>u. records s u = InProgress \<longrightarrow>
               records s' u = InProgress \<or> records s' u = Failed CycleError"
    unfolding steps_to_def by blast
  from assms(2) obtain new' where
    n2: "invoked s'' = invoked s' @ new'" "distinct new'"
        "\<forall>u \<in> set new'. records s' u = NotVisited \<and> is_final (records s'' u)"
    and f2: "\<forall>u. is_final (records s' u) \<longrightarrow> records s'' u = records s' u"
    and v2: "\<forall>u. records s'' u = NotVisited \<longrightarrow> records s' u = NotVisited"
    and p2: "\<forall>u. records s' u = InProgress \<longrightarrow>
               records s'' u = InProgress \<or> records s'' u = Failed CycleError"
    unfolding steps_to_def by blast
  have "invoked s'' = invoked s @ (new @ new')"
    using n1(1) n2(1) by simp
  moreover have "distinct (new @ new')"
  proof -
    have "set new \<inter> set new' = {}"
    proof (rule ccontr)
      assume "set new \<inter> set new' \<noteq> {}"
      then obtain u where "u \<in> set new" and "u \<in> set new'" by blast
      with n1(3) n2(3) have "is_final (records s' u)" and "records s' u = NotVisited" by auto
      then show False by simp
    qed
    with n1(2) n2(2) show ?thesis by simp
  qed
  moreover have "\<forall>u \<in> set (new @ new'). records s u = NotVisited \<and> is_final (records s'' u)"
  proof
    fix u assume "u \<in> set (new @ new')"
    then consider "u \<in> set new" | "u \<in> set new'" by auto
    then show "records s u = NotVisited \<and> is_final (records s'' u)"
    proof cases
      case 1
      with n1(3) have "records s u = NotVisited" and "is_final (records s' u)" by auto
      with f2 show ?thesis by simp
    next
      case 2
      with n2(3) have "records s' u = NotVisited" and "is_final (records s'' u)" by auto
      with v1 show ?thesis by simp
    qed
  qed
  moreover have "\<forall>u. is_final (records s u) \<longrightarrow> records s'' u = records s u"
    using f1 f2 by simp
  moreover have "\<forall>u. records s'' u = NotVisited \<longrightarrow> records s u = NotVisited"
    using v1 v2 by simp
  moreover have "\<forall>u. records s u = InProgress \<longrightarrow>
               records s'' u = InProgress \<or> records s'' u = Failed CycleError"
  proof (intro allI impI)
    fix u assume "records s u = InProgress"
    with p1 consider "records s' u = InProgress" | "records s' u = Failed CycleError" by blast
    then show "records s'' u = InProgress \<or> records s'' u = Failed CycleError"
    proof cases
      case 1
      with p2 show ?thesis by simp
    next
      case 2
      with f2 have "records s'' u = Failed CycleError" by simp
      then show ?thesis by simp
    qed
  qed
  ultimately show ?thesis
    unfolding steps_to_def by blast
qed

lemma attempt_shape:
  "\<exists>r new. is_final r \<and> records (attempt work t s) = (records s)(t := r) \<and>
      invoked (attempt work t s) = invoked s @ new \<and>
      (new = [] \<or> new = [t] \<and> list_all (\<lambda>d. records s d = Complete) (requires t))"
proof (cases "list_all (\<lambda>d. records s d = Complete) (requires t)")
  case False
  then have "attempt work t s = set_record t (Failed DependencyFailed) s"
    by (simp add: attempt_def)
  then have "is_final (Failed DependencyFailed) \<and>
      records (attempt work t s) = (records s)(t := Failed DependencyFailed) \<and>
      invoked (attempt work t s) = invoked s @ []"
    by (simp add: set_record_def)
  then show ?thesis by blast
next
  case True
  obtain r w2 where w: "work t (makedirs \<lparr>path = target_path t\<rparr> (world s)) = (r, w2)"
    by (cases "work t (makedirs \<lparr>path = target_path t\<rparr> (world s))")
  show ?thesis
  proof (cases "exists \<lparr>path = target_path t\<rparr> (world s)")
    case e: True
    with True have "is_final Complete \<and>
      records (attempt work t s) = (records s)(t := Complete) \<and>
      invoked (attempt work t s) = invoked s @ []"
      by (simp add: attempt_def output_of_eq set_record_def del: output_of.simps)
    then show ?thesis by blast
  next
    case e: False
    have "\<exists>r'. is_final r' \<and> records (attempt work t s) = (records s)(t := r') \<and>
      invoked (attempt work t s) = invoked s @ [t]"
    proof (cases r)
      case (Inl err)
      with True e w have "is_final (Failed (ExecutionError err)) \<and>
        records (attempt work t s) = (records s)(t := Failed (ExecutionError err)) \<and>
        invoked (attempt work t s) = invoked s @ [t]"
        by (simp add: attempt_def output_of_eq set_record_def Let_def del: output_of.simps)
      then show ?thesis by blast
    next
      case (Inr u)
      show ?thesis
      proof (cases "exists \<lparr>path = target_path t\<rparr> w2")
        case True
        with \<open>list_all (\<lambda>d. records s d = Complete) (requires t)\<close> e w Inr
        have "is_final Complete \<and>
          records (attempt work t s) = (records s)(t := Complete) \<and>
          invoked (attempt work t s) = invoked s @ [t]"
          by (simp add: attempt_def output_of_eq set_record_def Let_def del: output_of.simps)
        then show ?thesis by blast
      next
        case False
        with \<open>list_all (\<lambda>d. records s d = Complete) (requires t)\<close> e w Inr
        have "is_final (Failed PostconditionError) \<and>
          records (attempt work t s) = (records s)(t := Failed PostconditionError) \<and>
          invoked (attempt work t s) = invoked s @ [t]"
          by (simp add: attempt_def output_of_eq set_record_def Let_def del: output_of.simps)
        then show ?thesis by blast
      qed
    qed
    with True show ?thesis by blast
  qed
qed

lemma attempt_after:
  assumes nv: "records s t = NotVisited"
    and st: "steps_to (set_record t InProgress s) s2"
  shows "steps_to s (attempt work t s2)"
proof -
  let ?s1 = "set_record t InProgress s"
  let ?s' = "attempt work t s2"
  have r1: "records ?s1 = (records s)(t := InProgress)" and i1: "invoked ?s1 = invoked s"
    by (simp_all add: set_record_def)
  from st obtain new where
    n: "invoked s2 = invoked s @ new" "distinct new"
       "\<forall>u \<in> set new. records ?s1 u = NotVisited \<and> is_final (records s2 u)"
    and f: "\<forall>u. is_final (records ?s1 u) \<longrightarrow> records s2 u = records ?s1 u"
    and v: "\<forall>u. records s2 u = NotVisited \<longrightarrow> records ?s1 u = NotVisited"
    and p: "\<forall>u. records ?s1 u = InProgress \<longrightarrow>
               records s2 u = InProgress \<or> records s2 u = Failed CycleError"
    unfolding steps_to_def i1 by blast
  obtain r added where
    a: "is_final r" "records ?s' = (records s2)(t := r)" "invoked ?s' = invoked s2 @ added"
       "added = [] \<or> added = [t]"
    using attempt_shape [of work t s2] by blast
  have t_new: "t \<notin> set new"
  proof
    assume "t \<in> set new"
    with n(3) have "records ?s1 t = NotVisited" by blast
    then show False by (simp add: r1)
  qed
  have "invoked ?s' = invoked s @ (new @ added)"
    using n(1) a(3) by simp
  moreover have "distinct (new @ added)"
    using n(2) a(4) t_new by auto
  moreover have "\<forall>u \<in> set (new @ added). records s u = NotVisited \<and> is_final (records ?s' u)"
  proof
    fix u assume "u \<in> set (new @ added)"
    then consider "u \<in> set new" | "u = t" using a(4) by auto
    then show "records s u = NotVisited \<and> is_final (records ?s' u)"
    proof cases
      case 1
      with t_new have "u \<noteq> t" by blast
      with 1 n(3) show ?thesis by (auto simp: r1 a(2))
    next
      case 2
      with nv a(1) show ?thesis by (simp add: a(2))
    qed
  qed
  moreover have "\<forall>u. is_final (records s u) \<longrightarrow> records ?s' u = records s u"
  proof (intro allI impI)
    fix u assume u: "is_final (records s u)"
    with nv have "u \<noteq> t" by auto
    with u f show "records ?s' u = records s u" by (auto simp: r1 a(2))
  qed
  moreover have "\<forall>u. records ?s' u = NotVisited \<longrightarrow> records s u = NotVisited"
  proof (intro allI impI)
    fix u assume u: "records ?s' u = NotVisited"
    with a(1) have "u \<noteq> t" by (auto simp: a(2))
    with u v show "records s u = NotVisited" by (auto simp: r1 a(2))
  qed
  moreover have "\<forall>u. records s u = InProgress \<longrightarrow>
               records ?s' u = InProgress \<or> records ?s' u = Failed CycleError"
  proof (intro allI impI)
    fix u assume u: "records s u = InProgress"
    with nv have "u \<noteq> t" by auto
    with u p show "records ?s' u = InProgress \<or> records ?s' u = Failed CycleError"
      by (auto simp: r1 a(2))
  qed
  ultimately show ?thesis
    unfolding steps_to_def by blast
qed

lemma fold_steps_to:
  assumes "\<And>d s. d \<in> set ds \<Longrightarrow> steps_to s (f d s)"
  shows "steps_to s (fold f ds s)"
  using assms
proof (induction ds arbitrary: s)
  case Nil
  show ?case by (simp add: steps_to_refl)
next
  case (Cons d ds)
  have "steps_to s (f d s)" by (rule Cons.prems) simp
  moreover have "steps_to (f d s) (fold f ds (f d s))"
    by (rule Cons.IH) (simp add: Cons.prems)
  ultimately show ?case
    by (simp add: steps_to_trans)
qed

lemma resolve_steps_to: "steps_to s (resolve work t s)"
proof (induction work t s rule: resolve.induct)
  case (1 work t s)
  show ?case
  proof (cases "records s t")
    case NotVisited
    have "steps_to (set_record t InProgress s)
            (fold (resolve work) (requires t) (set_record t InProgress s))"
      by (rule fold_steps_to) (rule 1 [OF NotVisited])
    then have "steps_to s (attempt work t (fold (resolve work) (requires t) (set_record t InProgress s)))"
      by (rule attempt_after [OF NotVisited])
    then show ?thesis
      by (simp add: resolve_NotVisited [OF NotVisited])
  next
    case InProgress
    then show ?thesis
      by (auto simp: resolve_InProgress steps_to_def set_record_def)
  next
    case Complete
    then show ?thesis
      by (simp add: resolve_Complete steps_to_refl)
  next
    case (Failed e)
    then show ?thesis
      by (simp add: resolve_Failed steps_to_refl)
  qed
qed

lemma run_steps_to: "steps_to (initial_state w) (run work roots w)"
  unfolding run_def by (rule fold_steps_to) (rule resolve_steps_to)

lemma run_distinct: "distinct (invoked (run work roots w))"
  using run_steps_to [of w work roots]
  by (auto simp: steps_to_def initial_state_def)

lemma distinct_count_le: "distinct xs \<Longrightarrow> count_list xs x \<le> 1"
  by (induction xs) auto

lemma ordered_iff:
  "ordered s \<longleftrightarrow> (\<forall>t \<in> set (invoked s). \<forall>d \<in> set (requires t). records s d = Complete)"
  by (simp add: ordered_def list_all_iff)

lemma set_record_ordered:
  assumes "ordered s" and "records s t \<noteq> Complete"
  shows "ordered (set_record t r s)"
  using assms unfolding ordered_iff
  by (auto simp: set_record_def)

lemma attempt_ordered:
  assumes o: "ordered s" and t: "records s t \<noteq> Complete"
  shows "ordered (attempt work t s)"
proof -
  obtain r added where
    a: "records (attempt work t s) = (records s)(t := r)"
       "invoked (attempt work t s) = invoked s @ added"
       "added = [] \<or> added = [t] \<and> list_all (\<lambda>d. records s d = Complete) (requires t)"
    using attempt_shape [of work t s] by blast
  have old: "\<forall>u \<in> set (invoked s). \<forall>d \<in> set (requires u). d \<noteq> t \<and> records s d = Complete"
    using o t unfolding ordered_iff by auto
  have new: "\<forall>u \<in> set added. \<forall>d \<in> set (requires u). d \<noteq> t \<and> records s d = Complete"
    using a(3) t by (auto simp: list_all_iff)
  show ?thesis
    unfolding ordered_iff a(1) a(2) using old new by auto
qed

lemma fold_ordered:
  assumes "\<And>d s. d \<in> set ds \<Longrightarrow> ordered s \<Longrightarrow> ordered (f d s)" and "ordered s"
  shows "ordered (fold f ds s)"
  using assms
proof (induction ds arbitrary: s)
  case Nil
  then show ?case by simp
next
  case (Cons d ds)
  have "ordered (f d s)" by (rule Cons.prems(1)) (simp_all add: Cons.prems(2))
  then have "ordered (fold f ds (f d s))"
    by (intro Cons.IH) (simp_all add: Cons.prems(1))
  then show ?case by simp
qed

lemma resolve_ordered: "ordered s \<Longrightarrow> ordered (resolve work t s)"
proof (induction work t s rule: resolve.induct)
  case (1 work t s)
  show ?case
  proof (cases "records s t")
    case NotVisited
    let ?s1 = "set_record t InProgress s"
    let ?s2 = "fold (resolve work) (requires t) ?s1"
    have "ordered ?s1"
      using "1.prems" NotVisited by (intro set_record_ordered) simp_all
    then have o2: "ordered ?s2"
      by (intro fold_ordered [where s = ?s1]) (simp_all add: 1 (1) [OF NotVisited])
    have "steps_to ?s1 ?s2"
      by (rule fold_steps_to) (rule resolve_steps_to)
    moreover have "records ?s1 t = InProgress"
      by (simp add: set_record_def)
    ultimately have "records ?s2 t = InProgress \<or> records ?s2 t = Failed CycleError"
      unfolding steps_to_def by blast
    then have "records ?s2 t \<noteq> Complete" by auto
    with o2 have "ordered (attempt work t ?s2)" by (rule attempt_ordered)
    then show ?thesis
      by (simp add: resolve_NotVisited [OF NotVisited])
  next
    case InProgress
    with "1.prems" show ?thesis
      by (simp add: resolve_InProgress set_record_ordered)
  next
    case Complete
    with "1.prems" show ?thesis
      by (simp add: resolve_Complete)
  next
    case (Failed e)
    with "1.prems" show ?thesis
      by (simp add: resolve_Failed)
  qed
qed

lemma run_ordered: "ordered (run work roots w)"
proof -
  have "ordered (initial_state w)"
    by (simp add: ordered_def initial_state_def)
  show ?thesis
    unfolding run_def
  proof (rule fold_ordered)
    show "ordered (initial_state w)" by fact
  next
    fix d s
    assume "ordered s"
    then show "ordered (resolve work d s)" by (rule resolve_ordered)
  qed
qed

lemma resolve_settled:
  assumes "settled e r n s"
  shows "settled e r n (resolve work t s)"
proof -
  from assms have c: "records s e = r" "is_final r" and n: "count_list (invoked s) e = n"
    by (simp_all add: settled_def)
  from resolve_steps_to [of s work t] obtain new where
    i: "invoked (resolve work t s) = invoked s @ new"
    and nv: "\<forall>u \<in> set new. records s u = NotVisited \<and> is_final (records (resolve work t s) u)"
    and f: "\<forall>u. is_final (records s u) \<longrightarrow> records (resolve work t s) u = records s u"
    unfolding steps_to_def by blast
  from c nv have "e \<notin> set new" by auto
  then have "count_list new e = 0" by simp
  with n i have "count_list (invoked (resolve work t s)) e = n" by simp
  moreover from c f have "records (resolve work t s) e = r" by simp
  ultimately show ?thesis using c(2) by (simp add: settled_def)
qed

lemma attempt_settled:
  assumes "settled e r n s" and "t \<noteq> e"
  shows "settled e r n (attempt work t s)"
proof -
  obtain r' added where
    a: "records (attempt work t s) = (records s)(t := r')"
       "invoked (attempt work t s) = invoked s @ added"
       "added = [] \<or> added = [t] \<and> list_all (\<lambda>d. records s d = Complete) (requires t)"
    using attempt_shape [of work t s] by blast
  from a(3) assms(2) have "count_list added e = 0" by auto
  with assms show ?thesis
    by (simp add: settled_def a(1) a(2))
qed

lemma download_outcome:
  assumes "records s (DownloadDataset dv dn) = NotVisited"
  shows "records (resolve work (DownloadDataset dv dn) s) (DownloadDataset dv dn) = Complete
           \<longleftrightarrow> download_completes work dv dn (world s)"
    and "world (resolve work (DownloadDataset dv dn) s) = after_download work dv dn (world s)"
    and "count_list (invoked (resolve work (DownloadDataset dv dn) s)) (ExtractDataset dv dn) =
           count_list (invoked s) (ExtractDataset dv dn)"
proof -
  let ?D = "DownloadDataset dv dn"
  have r: "resolve work ?D s = attempt work ?D (set_record ?D InProgress s)"
    using assms by (simp add: resolve_NotVisited)
  obtain res w1 where w: "work ?D (makedirs \<lparr>path = target_path ?D\<rparr> (world s)) = (res, w1)"
    by (cases "work ?D (makedirs \<lparr>path = target_path ?D\<rparr> (world s))")
  show "records (resolve work ?D s) ?D = Complete \<longleftrightarrow> download_completes work dv dn (world s)"
    unfolding r
    by (simp add: attempt_def output_of_eq set_record_def download_completes_def w Let_def
          del: output_of.simps split: sum.split)
  show "world (resolve work ?D s) = after_download work dv dn (world s)"
    unfolding r
    by (simp add: attempt_def output_of_eq set_record_def after_download_def w Let_def
          del: output_of.simps split: sum.split)
  show "count_list (invoked (resolve work ?D s)) (ExtractDataset dv dn) =
           count_list (invoked s) (ExtractDataset dv dn)"
    unfolding r
    by (simp add: attempt_def output_of_eq set_record_def w Let_def
          del: output_of.simps split: sum.split)
qed

lemma extraction_outcome:
  assumes e: "records s (ExtractDataset dv dn) = NotVisited"
    and d: "records s (DownloadDataset dv dn) = NotVisited"
  shows "\<exists>r. settled (ExtractDataset dv dn) r
           (count_list (invoked s) (ExtractDataset dv dn) +
            (if download_completes work dv dn (world s) \<and>
                \<not> exists \<lparr>path = target_path (ExtractDataset dv dn)\<rparr>
                    (after_download work dv dn (world s))
             then 1 else 0))
           (resolve work (ExtractDataset dv dn) s) \<and>
         (r = Complete \<longleftrightarrow>
            download_completes work dv dn (world s) \<and> extraction_completes work dv dn (world s))"
proof -
  let ?E = "ExtractDataset dv dn" and ?D = "DownloadDataset dv dn"
  let ?s1 = "set_record ?E InProgress s"
  let ?s2 = "resolve work ?D ?s1"
  let ?wD = "after_download work dv dn (world s)"
  have d1: "records ?s1 ?D = NotVisited"
    using d by (simp add: set_record_def)
  have w1: "world ?s1 = world s" and i1: "invoked ?s1 = invoked s"
    by (simp_all add: set_record_def)
  note out = download_outcome [OF d1, of work, unfolded w1 i1]
  have r: "resolve work ?E s = attempt work ?E ?s2"
    using e by (simp add: resolve_NotVisited)
  obtain res w2 where w: "work ?E (makedirs \<lparr>path = target_path ?E\<rparr> ?wD) = (res, w2)"
    by (cases "work ?E (makedirs \<lparr>path = target_path ?E\<rparr> ?wD)")
  show ?thesis
  proof (cases "download_completes work dv dn (world s)")
    case False
    with out(1) have "records ?s2 ?D \<noteq> Complete" by simp
    then have "attempt work ?E ?s2 = set_record ?E (Failed DependencyFailed) ?s2"
      by (simp add: attempt_def)
    with False out(3) show ?thesis
      by (simp add: r settled_def set_record_def)
  next
    case True
    with out(1) have c: "records ?s2 ?D = Complete" by simp
    show ?thesis
    proof (cases "exists \<lparr>path = target_path ?E\<rparr> ?wD")
      case ex: True
      with c out(2) have "attempt work ?E ?s2 = set_record ?E Complete (?s2\<lparr>world := ?wD\<rparr>)"
        by (simp add: attempt_def output_of_eq del: output_of.simps)
      with True ex out(3) show ?thesis
        by (simp add: r settled_def set_record_def extraction_completes_def)
    next
      case ex: False
      show ?thesis
      proof (cases res)
        case (Inl err)
        with c out(2) ex w have "attempt work ?E ?s2 =
            set_record ?E (Failed (ExecutionError err))
              (?s2\<lparr>world := w2, invoked := invoked ?s2 @ [?E]\<rparr>)"
          by (simp add: attempt_def output_of_eq Let_def del: output_of.simps)
        with True ex out(3) w Inl show ?thesis
          by (simp add: r settled_def set_record_def extraction_completes_def)
      next
        case (Inr u)
        show ?thesis
        proof (cases "exists \<lparr>path = target_path ?E\<rparr> w2")
          case True
          with c out(2) ex w Inr have "attempt work ?E ?s2 =
              set_record ?E Complete (?s2\<lparr>world := w2, invoked := invoked ?s2 @ [?E]\<rparr>)"
            by (simp add: attempt_def output_of_eq Let_def del: output_of.simps)
          with \<open>download_completes work dv dn (world s)\<close> True ex out(3) w Inr show ?thesis
            by (simp add: r settled_def set_record_def extraction_completes_def)
        next
          case False
          with c out(2) ex w Inr have "attempt work ?E ?s2 =
              set_record ?E (Failed PostconditionError)
                (?s2\<lparr>world := w2, invoked := invoked ?s2 @ [?E]\<rparr>)"
            by (simp add: attempt_def output_of_eq Let_def del: output_of.simps)
          with \<open>download_completes work dv dn (world s)\<close> False ex out(3) w Inr show ?thesis
            by (simp add: r settled_def set_record_def extraction_completes_def)
        qed
      qed
    qed
  qed
qed

lemma Export_run_extraction:
  "\<exists>r. settled (ExtractDataset dv dn) r
          (if download_completes work dv dn w \<and>
              \<not> exists \<lparr>path = target_path (ExtractDataset dv dn)\<rparr> (after_download work dv dn w)
           then 1 else 0)
          (run work [Export dv dn cn mv mn] w) \<and>
        (r = Complete \<longleftrightarrow>
           download_completes work dv dn w \<and> extraction_completes work dv dn w)"
proof -
  let ?X = "Export dv dn cn mv mn" and ?V = "Evaluate dv dn cn mv mn"
  let ?T = "TrainModel dv dn cn mv mn" and ?B = "BaselineValidation dv dn cn"
  let ?E = "ExtractDataset dv dn" and ?C = "Configure cn"
  let ?n = "if download_completes work dv dn w \<and>
              \<not> exists \<lparr>path = target_path ?E\<rparr> (after_download work dv dn w)
            then 1 else 0 :: nat"
  let ?s0 = "initial_state w"
  let ?sX = "set_record ?X InProgress ?s0"
  let ?sV = "set_record ?V InProgress ?sX"
  let ?sT = "set_record ?T InProgress ?sV"
  have "records ?sT ?E = NotVisited" and "records ?sT (DownloadDataset dv dn) = NotVisited"
    and wT: "world ?sT = w" and iT: "invoked ?sT = []"
    by (simp_all add: set_record_def initial_state_def)
  from extraction_outcome [OF this(1,2), of work] obtain r where
    s: "settled ?E r ?n (resolve work ?E ?sT)"
    and c: "r = Complete \<longleftrightarrow>
              download_completes work dv dn w \<and> extraction_completes work dv dn w"
    unfolding wT iT by auto
  from s have "settled ?E r ?n (resolve work ?C (resolve work ?E ?sT))"
    by (rule resolve_settled)
  then have "settled ?E r ?n (attempt work ?T (resolve work ?C (resolve work ?E ?sT)))"
    by (rule attempt_settled) simp
  moreover have "records ?sV ?T = NotVisited"
    by (simp add: set_record_def initial_state_def)
  ultimately have "settled ?E r ?n (resolve work ?T ?sV)"
    by (simp add: resolve_NotVisited)
  then have "settled ?E r ?n (resolve work ?B (resolve work ?T ?sV))"
    by (rule resolve_settled)
  then have "settled ?E r ?n (resolve work ?E (resolve work ?B (resolve work ?T ?sV)))"
    by (rule resolve_settled)
  then have "settled ?E r ?n
      (resolve work ?C (resolve work ?E (resolve work ?B (resolve work ?T ?sV))))"
    by (rule resolve_settled)
  then have "settled ?E r ?n (attempt work ?V
      (resolve work ?C (resolve work ?E (resolve work ?B (resolve work ?T ?sV)))))"
    by (rule attempt_settled) simp
  moreover have "records ?sX ?V = NotVisited"
    by (simp add: set_record_def initial_state_def)
  ultimately have "settled ?E r ?n (resolve work ?V ?sX)"
    by (simp add: resolve_NotVisited)
  then have "settled ?E r ?n (resolve work ?T (resolve work ?V ?sX))"
    by (rule resolve_settled)
  then have "settled ?E r ?n (attempt work ?X (resolve work ?T (resolve work ?V ?sX)))"
    by (rule attempt_settled) simp
  moreover have "records ?s0 ?X = NotVisited"
    by (simp add: initial_state_def)
  ultimately have "settled ?E r ?n (resolve work ?X ?s0)"
    by (simp add: resolve_NotVisited)
  then have "settled ?E r ?n (run work [?X] w)"
    by (simp add: run_def)
  with c show ?thesis by blast
qed

section \<open>The claims\<close>

text \<open>
  C1, as stated, fails for the kind of failure: with a computed accuracy of \<open>0.5\<close> and
  the integer \<open>10 ^ 309\<close> as baseline, the accuracy does not exceed the baseline and the
  routine fails, but with the \<open>OverflowError\<close> that formatting the baseline with
  \<open>%f\<close> raises, before the \<open>Exception\<close> of line 336 is constructed.
\<close>

theorem Evaluate_run_gate_overflow_counterexample:
  "\<not> py_gt (Fin (1 / 2)) (PyInt (10 ^ 309)) \<and>
   fst (Evaluate_run (sample_collaborators (Fin (1 / 2))) 1 ''dataset'' ''standard'' 1 ''keras_model''
          (sample_world [''acc'' \<mapsto> PyInt (10 ^ 309)])) = Inl OverflowError"
proof -
  let ?b = "PyInt (10 ^ 309)"
  have h4: "py_index [Fin (1 / 4), Fin (1 / 2)] 1 = Inr (Fin (1 / 2))"
    by (simp add: py_index_def)
  have h6: "[''acc'' \<mapsto> ?b] ''acc'' = Some ?b"
    by simp
  have ng: "\<not> py_gt (Fin (1 / 2)) ?b"
    by simp
  have "(2::int) ^ 1024 \<le> \<bar>10 ^ 309\<bar>"
    by simp
  then have "fmt_f ?b = Inl OverflowError"
    by (rule fmt_f_overflow)
  moreover have "fmt_f (Fin (1 / 2)) = Inr (fixed6 (1 / 2))"
    by (simp only: fmt_f.simps)
  ultimately have raised: "raised_at_336 (Fin (1 / 2)) ?b = OverflowError"
    by (intro raised_at_336_overflow)
  from Evaluate_run_result [where C = "sample_collaborators (Fin (1 / 2))"
      and w = "sample_world [''acc'' \<mapsto> ?b]" and loaded = "[''acc'' \<mapsto> ?b]",
      OF sample_load_model sample_build_generator sample_evaluate_generator h4
         sample_read_json h6] ng
  have "fst (Evaluate_run (sample_collaborators (Fin (1 / 2))) 1 ''dataset'' ''standard'' 1
               ''keras_model'' (sample_world [''acc'' \<mapsto> ?b])) =
        Inl (raised_at_336 (Fin (1 / 2)) ?b)"
    by (simp only: if_False fst_conv)
  with raised ng show ?thesis
    by (simp only: simp_thms)
qed

text \<open>
  C1, amended. Once the accuracy has been computed (the model loads, the generator is
  built, the evaluation returns a list with a second element \<open>acc\<close>) and the baseline has
  been read (the baseline file is a JSON object with the key \<open>acc\<close>), \<open>Evaluate.run\<close>
  ends with an exception if and only if \<open>acc\<close> does not strictly exceed the baseline.
  The exception is the \<open>Exception\<close> of line 336, the gate failure, with both values in
  its message, whenever \<open>%f\<close> can format both values; \<open>%f\<close> can format every float,
  and every integer below \<open>2 ^ 1023\<close> in magnitude. When \<open>acc\<close> strictly exceeds the
  baseline no exception is raised and the task's Target exists afterwards, so the task is
  complete.
\<close>

theorem Evaluate_run_gate:
  assumes "load_model C (files w (target_path (TrainModel dv dn cn mv mn))) = Inr model"
    and "build_generator C (target_path (Configure cn)) (target_path (ExtractDataset dv dn))
           validation_set (makedirs \<lparr>path = target_path (Evaluate dv dn cn mv mn)\<rparr> w) = Inr test_data"
    and "evaluate_generator C model test_data = Inr evaluation"
    and "py_index evaluation 1 = Inr acc"
    and "read_json \<lparr>path = target_path (BaselineValidation dv dn cn)\<rparr> w = Inr loaded"
    and "loaded ''acc'' = Some baseline_acc"
  shows "(isl (fst (Evaluate_run C dv dn cn mv mn w)) \<longleftrightarrow> \<not> py_gt acc baseline_acc) \<and>
         (\<not> py_gt acc baseline_acc \<longrightarrow>
            (\<forall>shown_acc shown_baseline.
               fmt_f acc = Inr shown_acc \<and> fmt_f baseline_acc = Inr shown_baseline \<longrightarrow>
               fst (Evaluate_run C dv dn cn mv mn w) =
                 Inl (Exception (''Acc '' @ shown_acc @ '' is smaller than baseline acc '' @
                                 shown_baseline @ ''!'')))) \<and>
         (\<forall>x e. fmt_f x = Inl e \<longrightarrow> (\<exists>n. x = PyInt n \<and> 2 ^ 1023 \<le> \<bar>n\<bar>)) \<and>
         (py_gt acc baseline_acc \<longrightarrow>
            fst (Evaluate_run C dv dn cn mv mn w) = Inr () \<and>
            exists \<lparr>path = target_path (Evaluate dv dn cn mv mn)\<rparr>
              (snd (Evaluate_run C dv dn cn mv mn w)))"
proof (intro conjI allI impI)
  note r = Evaluate_run_result [OF assms]
  show "isl (fst (Evaluate_run C dv dn cn mv mn w)) \<longleftrightarrow> \<not> py_gt acc baseline_acc"
    by (simp add: r)
  show "fst (Evaluate_run C dv dn cn mv mn w) = Inr ()" if "py_gt acc baseline_acc"
    using that by (simp add: r)
  show "exists \<lparr>path = target_path (Evaluate dv dn cn mv mn)\<rparr>
          (snd (Evaluate_run C dv dn cn mv mn w))" if "py_gt acc baseline_acc"
    using that by (simp add: r exists_def write_target_def)
  show "fst (Evaluate_run C dv dn cn mv mn w) =
          Inl (Exception (''Acc '' @ shown_acc @ '' is smaller than baseline acc '' @
                          shown_baseline @ ''!''))"
    if "\<not> py_gt acc baseline_acc"
      and "fmt_f acc = Inr shown_acc \<and> fmt_f baseline_acc = Inr shown_baseline"
    for shown_acc shown_baseline
    using that by (simp add: r raised_at_336_shown)
  show "\<exists>n. x = PyInt n \<and> 2 ^ 1023 \<le> \<bar>n\<bar>" if "fmt_f x = Inl e" for x e
    using fmt_f_fails [OF that] by blast
qed

theorem Evaluate_run_gate_witness:
  "py_index [Fin (1 / 4), Fin (7 / 10)] 1 = Inr (Fin (7 / 10)) \<and>
   [''acc'' \<mapsto> Fin (8 / 10)] ''acc'' = Some (Fin (8 / 10)) \<and>
   \<not> py_gt (Fin (7 / 10)) (Fin (8 / 10)) \<and>
   fmt_f (Fin (7 / 10)) = Inr ''0.700000'' \<and>
   fmt_f (Fin (8 / 10)) = Inr ''0.800000'' \<and>
   isl (fst (Evaluate_run (sample_collaborators (Fin (7 / 10))) 1 ''dataset'' ''standard'' 1 ''keras_model''
               (sample_world [''acc'' \<mapsto> Fin (8 / 10)]))) \<and>
   fst (Evaluate_run (sample_collaborators (Fin (7 / 10))) 1 ''dataset'' ''standard'' 1 ''keras_model''
          (sample_world [''acc'' \<mapsto> Fin (8 / 10)])) =
     Inl (Exception (''Acc '' @ ''0.700000'' @ '' is smaller than baseline acc '' @ ''0.800000'' @ ''!''))"
proof -
  have h4: "py_index [Fin (1 / 4), Fin (7 / 10)] 1 = Inr (Fin (7 / 10))"
    by (simp add: py_index_def)
  have h6: "[''acc'' \<mapsto> Fin (8 / 10)] ''acc'' = Some (Fin (8 / 10))"
    by simp
  have g: "\<not> py_gt (Fin (7 / 10)) (Fin (8 / 10))"
    by simp
  note fact = Evaluate_run_gate [where C = "sample_collaborators (Fin (7 / 10))"
        and w = "sample_world [''acc'' \<mapsto> Fin (8 / 10)]"
        and loaded = "[''acc'' \<mapsto> Fin (8 / 10)]",
        OF sample_load_model sample_build_generator sample_evaluate_generator h4
           sample_read_json h6]
  from fact g have failed: "isl (fst (Evaluate_run (sample_collaborators (Fin (7 / 10))) 1 ''dataset''
      ''standard'' 1 ''keras_model'' (sample_world [''acc'' \<mapsto> Fin (8 / 10)])))"
    by blast
  from fact g fmt_f_07 fmt_f_08
  have "fst (Evaluate_run (sample_collaborators (Fin (7 / 10))) 1 ''dataset'' ''standard'' 1 ''keras_model''
          (sample_world [''acc'' \<mapsto> Fin (8 / 10)])) =
     Inl (Exception (''Acc '' @ ''0.700000'' @ '' is smaller than baseline acc '' @ ''0.800000'' @ ''!''))"
    by blast
  with h4 h6 g fmt_f_07 fmt_f_08 failed show ?thesis
    by (intro conjI)
qed

text \<open>
  C2. With a computed accuracy of \<open>0.90\<close> and a baseline of \<open>0.80\<close>,
  \<open>Evaluate.run\<close> returns normally and its Target holds the JSON object with the
  accuracy \<open>0.90\<close> under \<open>acc\<close> and the baseline \<open>0.80\<close> under
  \<open>baseline_acc\<close>.
\<close>

theorem Evaluate_run_passes:
  assumes "load_model C (files w (target_path (TrainModel dv dn cn mv mn))) = Inr model"
    and "build_generator C (target_path (Configure cn)) (target_path (ExtractDataset dv dn))
           validation_set (makedirs \<lparr>path = target_path (Evaluate dv dn cn mv mn)\<rparr> w) = Inr test_data"
    and "evaluate_generator C model test_data = Inr evaluation"
    and "py_index evaluation 1 = Inr (Fin (9 / 10))"
    and "read_json \<lparr>path = target_path (BaselineValidation dv dn cn)\<rparr> w = Inr loaded"
    and "loaded ''acc'' = Some (Fin (8 / 10))"
  shows "fst (Evaluate_run C dv dn cn mv mn w) = Inr () \<and>
         files (snd (Evaluate_run C dv dn cn mv mn w)) (target_path (Evaluate dv dn cn mv mn)) =
           Some (Json [''acc'' \<mapsto> Fin (9 / 10), ''baseline_acc'' \<mapsto> Fin (8 / 10)])"
  using assms by (simp add: Evaluate_run_unfold Let_def write_target_def files_makedirs)

theorem Evaluate_run_passes_witness:
  "py_index [Fin (1 / 4), Fin (9 / 10)] 1 = Inr (Fin (9 / 10)) \<and>
   [''acc'' \<mapsto> Fin (8 / 10)] ''acc'' = Some (Fin (8 / 10)) \<and>
   Evaluate_run (sample_collaborators (Fin (9 / 10))) 1 ''dataset'' ''standard'' 1 ''keras_model''
     (sample_world [''acc'' \<mapsto> Fin (8 / 10)]) =
   (Inr (),
    \<lparr>files = [''model/1/keras_model.h5'' \<mapsto> Blob 7,
              ''baseline/find_round_objects.json.json'' \<mapsto> Json [''acc'' \<mapsto> Fin (8 / 10)],
              ''evaluation/1/keras_model.json'' \<mapsto>
                 Json [''acc'' \<mapsto> Fin (9 / 10), ''baseline_acc'' \<mapsto> Fin (8 / 10)]],
     parents_made = {''evaluation/1/keras_model.json''}\<rparr>)"
proof -
  have h4: "py_index [Fin (1 / 4), Fin (9 / 10)] 1 = Inr (Fin (9 / 10))"
    by (simp add: py_index_def)
  have h6: "[''acc'' \<mapsto> Fin (8 / 10)] ''acc'' = Some (Fin (8 / 10))"
    by simp
  have "fst (Evaluate_run (sample_collaborators (Fin (9 / 10))) 1 ''dataset'' ''standard'' 1 ''keras_model''
          (sample_world [''acc'' \<mapsto> Fin (8 / 10)])) = Inr ()"
    using Evaluate_run_passes [where C = "sample_collaborators (Fin (9 / 10))"
        and w = "sample_world [''acc'' \<mapsto> Fin (8 / 10)]"
        and loaded = "[''acc'' \<mapsto> Fin (8 / 10)]",
        OF sample_load_model sample_build_generator sample_evaluate_generator h4
           sample_read_json h6] by simp
  moreover have "snd (Evaluate_run (sample_collaborators (Fin (9 / 10))) 1 ''dataset'' ''standard'' 1 ''keras_model''
          (sample_world [''acc'' \<mapsto> Fin (8 / 10)])) =
    \<lparr>files = [''model/1/keras_model.h5'' \<mapsto> Blob 7,
              ''baseline/find_round_objects.json.json'' \<mapsto> Json [''acc'' \<mapsto> Fin (8 / 10)],
              ''evaluation/1/keras_model.json'' \<mapsto>
                 Json [''acc'' \<mapsto> Fin (9 / 10), ''baseline_acc'' \<mapsto> Fin (8 / 10)]],
     parents_made = {''evaluation/1/keras_model.json''}\<rparr>"
    by (simp add: Evaluate_run_unfold Let_def sample_paths target_path_simps fmt_d_1 sample_collaborators_def
          sample_world_def read_json_def py_index_def write_target_def makedirs_def)
  ultimately show ?thesis using h4 h6 by (simp add: prod_eq_iff)
qed

text \<open>
  C3, as stated, fails in its parenthesis: when \<open>Evaluate.run\<close> raises the gate
  failure the world is not the one it started in. The routine begins with
  \<open>self.output().makedirs()\<close>, so the parent directories of its Target have been
  created by the time the comparison fails.
\<close>

theorem Evaluate_run_fails_state_counterexample:
  "fst (Evaluate_run (sample_collaborators (Fin (7 / 10))) 1 ''dataset'' ''standard'' 1 ''keras_model''
          (sample_world [''acc'' \<mapsto> Fin (8 / 10)])) =
     Inl (Exception ''Acc 0.700000 is smaller than baseline acc 0.800000!'') \<and>
   parents_made (sample_world [''acc'' \<mapsto> Fin (8 / 10)]) = {} \<and>
   parents_made (snd (Evaluate_run (sample_collaborators (Fin (7 / 10))) 1 ''dataset'' ''standard'' 1
                        ''keras_model'' (sample_world [''acc'' \<mapsto> Fin (8 / 10)]))) =
     {''evaluation/1/keras_model.json''} \<and>
   snd (Evaluate_run (sample_collaborators (Fin (7 / 10))) 1 ''dataset'' ''standard'' 1 ''keras_model''
          (sample_world [''acc'' \<mapsto> Fin (8 / 10)])) \<noteq>
     sample_world [''acc'' \<mapsto> Fin (8 / 10)]"
proof -
  let ?w = "sample_world [''acc'' \<mapsto> Fin (8 / 10)]"
  let ?r = "Evaluate_run (sample_collaborators (Fin (7 / 10))) 1 ''dataset'' ''standard'' 1
              ''keras_model'' ?w"
  have h4: "py_index [Fin (1 / 4), Fin (7 / 10)] 1 = Inr (Fin (7 / 10))"
    by (simp add: py_index_def)
  have h6: "[''acc'' \<mapsto> Fin (8 / 10)] ''acc'' = Some (Fin (8 / 10))"
    by simp
  have ng: "\<not> py_gt (Fin (7 / 10)) (Fin (8 / 10))"
    by simp
  from Evaluate_run_result [where C = "sample_collaborators (Fin (7 / 10))" and w = ?w
      and loaded = "[''acc'' \<mapsto> Fin (8 / 10)]",
      OF sample_load_model sample_build_generator sample_evaluate_generator h4
         sample_read_json h6] ng
  have "?r = (Inl (raised_at_336 (Fin (7 / 10)) (Fin (8 / 10))),
           makedirs \<lparr>path = target_path (Evaluate 1 ''dataset'' ''standard'' 1 ''keras_model'')\<rparr> ?w)"
    by (simp only: if_False)
  then have r: "?r = (Inl (Exception ''Acc 0.700000 is smaller than baseline acc 0.800000!''),
           makedirs \<lparr>path = ''evaluation/1/keras_model.json''\<rparr> ?w)"
    by (simp only: raised_at_336_07_08 sample_paths)
  have p0: "parents_made ?w = {}"
    by (simp add: sample_world_def)
  have p1: "parents_made (snd ?r) = {''evaluation/1/keras_model.json''}"
    by (simp only: r snd_conv) (simp add: makedirs_def sample_world_def)
  have ne: "snd ?r \<noteq> ?w"
  proof
    assume "snd ?r = ?w"
    then have "parents_made (snd ?r) = parents_made ?w"
      by (rule arg_cong)
    then have "{''evaluation/1/keras_model.json''} = ({} :: string set)"
      by (simp only: p0 p1)
    then show False
      by (simp only: insert_not_empty)
  qed
  have "fst ?r = Inl (Exception ''Acc 0.700000 is smaller than baseline acc 0.800000!'')"
    by (simp only: r fst_conv)
  with p0 p1 ne show ?thesis
    by (intro conjI)
qed

text \<open>
  C3, amended. With a computed accuracy of \<open>0.70\<close> and a baseline of \<open>0.80\<close>,
  \<open>Evaluate.run\<close> raises the gate failure, whose message shows both compared values.
  No file is written: every path, the task's Target among them, holds afterwards what it
  held before. The world differs from the initial one only by the \<open>makedirs\<close> call at
  the start of the routine, which creates the Target's parent directories.
\<close>

theorem Evaluate_run_fails:
  assumes "load_model C (files w (target_path (TrainModel dv dn cn mv mn))) = Inr model"
    and "build_generator C (target_path (Configure cn)) (target_path (ExtractDataset dv dn))
           validation_set (makedirs \<lparr>path = target_path (Evaluate dv dn cn mv mn)\<rparr> w) = Inr test_data"
    and "evaluate_generator C model test_data = Inr evaluation"
    and "py_index evaluation 1 = Inr (Fin (7 / 10))"
    and "read_json \<lparr>path = target_path (BaselineValidation dv dn cn)\<rparr> w = Inr loaded"
    and "loaded ''acc'' = Some (Fin (8 / 10))"
  shows "fst (Evaluate_run C dv dn cn mv mn w) =
           Inl (Exception ''Acc 0.700000 is smaller than baseline acc 0.800000!'') \<and>
         files (snd (Evaluate_run C dv dn cn mv mn w)) = files w \<and>
         snd (Evaluate_run C dv dn cn mv mn w) =
           makedirs \<lparr>path = target_path (Evaluate dv dn cn mv mn)\<rparr> w"
proof -
  have "\<not> py_gt (Fin (7 / 10)) (Fin (8 / 10))"
    by simp
  with Evaluate_run_result [OF assms]
  have "Evaluate_run C dv dn cn mv mn w =
          (Inl (raised_at_336 (Fin (7 / 10)) (Fin (8 / 10))),
           makedirs \<lparr>path = target_path (Evaluate dv dn cn mv mn)\<rparr> w)"
    by (simp only: if_False)
  then have "Evaluate_run C dv dn cn mv mn w =
          (Inl (Exception ''Acc 0.700000 is smaller than baseline acc 0.800000!''),
           makedirs \<lparr>path = target_path (Evaluate dv dn cn mv mn)\<rparr> w)"
    by (simp only: raised_at_336_07_08)
  then show ?thesis
    by (simp only: fst_conv snd_conv files_makedirs simp_thms)
qed

theorem Evaluate_run_fails_witness:
  "py_index [Fin (1 / 4), Fin (7 / 10)] 1 = Inr (Fin (7 / 10)) \<and>
   [''acc'' \<mapsto> Fin (8 / 10)] ''acc'' = Some (Fin (8 / 10)) \<and>
   Evaluate_run (sample_collaborators (Fin (7 / 10))) 1 ''dataset'' ''standard'' 1 ''keras_model''
     (sample_world [''acc'' \<mapsto> Fin (8 / 10)]) =
   (Inl (Exception ''Acc 0.700000 is smaller than baseline acc 0.800000!''),
    \<lparr>files = [''model/1/keras_model.h5'' \<mapsto> Blob 7,
              ''baseline/find_round_objects.json.json'' \<mapsto> Json [''acc'' \<mapsto> Fin (8 / 10)]],
     parents_made = {''evaluation/1/keras_model.json''}\<rparr>)"
proof -
  have h4: "py_index [Fin (1 / 4), Fin (7 / 10)] 1 = Inr (Fin (7 / 10))"
    by (simp add: py_index_def)
  have h6: "[''acc'' \<mapsto> Fin (8 / 10)] ''acc'' = Some (Fin (8 / 10))"
    by simp
  show ?thesis
    using Evaluate_run_fails [where C = "sample_collaborators (Fin (7 / 10))"
        and w = "sample_world [''acc'' \<mapsto> Fin (8 / 10)]"
        and loaded = "[''acc'' \<mapsto> Fin (8 / 10)]",
        OF sample_load_model sample_build_generator sample_evaluate_generator h4
           sample_read_json h6] h4 h6
    by (simp add: prod_eq_iff sample_paths makedirs_def sample_world_def)
qed

text \<open>
  C4, as stated, fails: in a run from \<open>Export\<close> that starts in a world where the
  archive is already downloaded and extracted, the work routines of the other five tasks
  are invoked and the extraction work routine is not invoked at all.
\<close>

theorem extraction_skipped_counterexample:
  "invoked (run touch [Export 1 ''dataset'' ''standard'' 1 ''keras_model''] extracted_world) =
     [Configure ''standard'', TrainModel 1 ''dataset'' ''standard'' 1 ''keras_model'',
      BaselineValidation 1 ''dataset'' ''standard'', Evaluate 1 ''dataset'' ''standard'' 1 ''keras_model'',
      Export 1 ''dataset'' ''standard'' 1 ''keras_model''] \<and>
   count_list (invoked (run touch [Export 1 ''dataset'' ''standard'' 1 ''keras_model''] extracted_world))
     (ExtractDataset 1 ''dataset'') \<noteq> 1"
  by (simp add: run_def initial_state_def resolve.simps attempt_def set_record_def touch_def
        output_of_eq target_path_simps fmt_d_1 exists_def makedirs_def write_target_def
        extracted_world_def Let_def del: output_of.simps)

text \<open>
  C4, amended. \<open>BaselineValidation\<close>, \<open>TrainModel\<close> and \<open>Evaluate\<close> with
  the same parameter values each require the same task
  \<open>ExtractDataset dataset_version dataset_name\<close>. In any run the extraction work
  routine is invoked at most once, and every task whose work routine is invoked has all
  its dependencies Complete. In a run from \<open>Export\<close> the extraction work routine is
  invoked exactly once if \<open>DownloadDataset\<close> completes and the extraction Target does
  not exist in the world the download leaves, and not at all otherwise; the extraction
  task ends Complete exactly when \<open>DownloadDataset\<close> completes and the extraction
  completes (its Target exists in that world, or its work routine succeeds and its Target
  exists afterwards).
\<close>

theorem diamond_extraction:
  "ExtractDataset dv dn \<in> set (requires (BaselineValidation dv dn cn)) \<and>
   ExtractDataset dv dn \<in> set (requires (TrainModel dv dn cn mv mn)) \<and>
   ExtractDataset dv dn \<in> set (requires (Evaluate dv dn cn mv mn)) \<and>
   count_list (invoked (run work roots w)) (ExtractDataset dv dn) \<le> 1 \<and>
   (\<forall>t \<in> set (invoked (run work roots w)). \<forall>d \<in> set (requires t).
      records (run work roots w) d = Complete) \<and>
   count_list (invoked (run work [Export dv dn cn mv mn] w)) (ExtractDataset dv dn) =
     (if download_completes work dv dn w \<and>
         \<not> exists \<lparr>path = target_path (ExtractDataset dv dn)\<rparr> (after_download work dv dn w)
      then 1 else 0) \<and>
   (records (run work [Export dv dn cn mv mn] w) (ExtractDataset dv dn) = Complete \<longleftrightarrow>
      download_completes work dv dn w \<and> extraction_completes work dv dn w)"
proof -
  have a: "count_list (invoked (run work roots w)) (ExtractDataset dv dn) \<le> 1"
    by (rule distinct_count_le) (rule run_distinct)
  have b: "\<forall>t \<in> set (invoked (run work roots w)). \<forall>d \<in> set (requires t).
      records (run work roots w) d = Complete"
    using run_ordered [of work roots w] by (simp only: ordered_iff)
  from Export_run_extraction [of dv dn work w cn mv mn] obtain r where
    s: "settled (ExtractDataset dv dn) r
          (if download_completes work dv dn w \<and>
              \<not> exists \<lparr>path = target_path (ExtractDataset dv dn)\<rparr> (after_download work dv dn w)
           then 1 else 0)
          (run work [Export dv dn cn mv mn] w)"
    and c: "r = Complete \<longleftrightarrow>
           download_completes work dv dn w \<and> extraction_completes work dv dn w"
    by blast
  from s have n: "count_list (invoked (run work [Export dv dn cn mv mn] w)) (ExtractDataset dv dn) =
     (if download_completes work dv dn w \<and>
         \<not> exists \<lparr>path = target_path (ExtractDataset dv dn)\<rparr> (after_download work dv dn w)
      then 1 else 0)"
    and "records (run work [Export dv dn cn mv mn] w) (ExtractDataset dv dn) = r"
    by (simp_all only: settled_def)
  with c have e: "records (run work [Export dv dn cn mv mn] w) (ExtractDataset dv dn) = Complete
      \<longleftrightarrow> download_completes work dv dn w \<and> extraction_completes work dv dn w"
    by simp
  have m: "ExtractDataset dv dn \<in> set (requires (BaselineValidation dv dn cn))"
    "ExtractDataset dv dn \<in> set (requires (TrainModel dv dn cn mv mn))"
    "ExtractDataset dv dn \<in> set (requires (Evaluate dv dn cn mv mn))"
    by simp_all
  from m a b n e show ?thesis
    by (intro conjI)
qed

theorem diamond_extraction_witness:
  "download_completes touch 1 ''dataset'' no_files \<and>
   \<not> exists \<lparr>path = target_path (ExtractDataset 1 ''dataset'')\<rparr>
       (after_download touch 1 ''dataset'' no_files) \<and>
   extraction_completes touch 1 ''dataset'' no_files \<and>
   invoked (run touch [Export 1 ''dataset'' ''standard'' 1 ''keras_model''] no_files) =
     [DownloadDataset 1 ''dataset'', ExtractDataset 1 ''dataset'', Configure ''standard'',
      TrainModel 1 ''dataset'' ''standard'' 1 ''keras_model'',
      BaselineValidation 1 ''dataset'' ''standard'',
      Evaluate 1 ''dataset'' ''standard'' 1 ''keras_model'',
      Export 1 ''dataset'' ''standard'' 1 ''keras_model''] \<and>
   count_list (invoked (run touch [Export 1 ''dataset'' ''standard'' 1 ''keras_model''] no_files))
     (ExtractDataset 1 ''dataset'') = 1 \<and>
   records (run touch [Export 1 ''dataset'' ''standard'' 1 ''keras_model''] no_files)
     (ExtractDataset 1 ''dataset'') = Complete"
proof -
  let ?D = "DownloadDataset 1 ''dataset''" and ?E = "ExtractDataset 1 ''dataset''"
  have h1: "download_completes touch 1 ''dataset'' no_files"
    by (simp add: download_completes_def touch_def exists_def write_target_def no_files_def Let_def)
  have h2: "\<not> exists \<lparr>path = target_path ?E\<rparr> (after_download touch 1 ''dataset'' no_files)"
    by (simp add: after_download_def touch_def exists_def write_target_def makedirs_def
          no_files_def target_path_simps Let_def)
  have h3: "extraction_completes touch 1 ''dataset'' no_files"
    by (simp add: extraction_completes_def touch_def exists_def write_target_def Let_def)
  have order: "invoked (run touch [Export 1 ''dataset'' ''standard'' 1 ''keras_model''] no_files) =
     [?D, ?E, Configure ''standard'', TrainModel 1 ''dataset'' ''standard'' 1 ''keras_model'',
      BaselineValidation 1 ''dataset'' ''standard'',
      Evaluate 1 ''dataset'' ''standard'' 1 ''keras_model'',
      Export 1 ''dataset'' ''standard'' 1 ''keras_model'']"
    by (simp add: run_def initial_state_def resolve.simps attempt_def set_record_def touch_def
        output_of_eq target_path_simps fmt_d_1 exists_def makedirs_def write_target_def
        no_files_def Let_def del: output_of.simps)
  from diamond_extraction [where work = touch and w = no_files
      and dv = 1 and dn = "''dataset''" and cn = "''standard''" and mv = 1 and mn = "''keras_model''"]
    h1 h2 h3
  have "count_list (invoked (run touch [Export 1 ''dataset'' ''standard'' 1 ''keras_model''] no_files))
          ?E = 1 \<and>
        records (run touch [Export 1 ''dataset'' ''standard'' 1 ''keras_model''] no_files) ?E = Complete"
    by simp
  with h1 h2 h3 order show ?thesis
    by blast
qed

text \<open>
  C5, as stated, fails: two \<open>BaselineValidation\<close> tasks with different parameter values
  are distinct tasks with the same Target path, because that path is built from the class
  constant \<open>baseline_name\<close> alone.
\<close>

theorem distinct_keys_same_target_counterexample:
  "BaselineValidation 1 ''dataset'' ''standard'' \<noteq> BaselineValidation 2 ''dataset'' ''standard'' \<and>
   target_path (BaselineValidation 1 ''dataset'' ''standard'') =
   target_path (BaselineValidation 2 ''dataset'' ''standard'')"
  by (simp add: target_path_simps)

text \<open>
  C5, amended. Tasks of different classes have different Target paths. Two tasks of the
  same class have the same Target path exactly when they agree on the parameters their
  path is built from: \<open>dataset_version\<close> and \<open>dataset_name\<close> for
  \<open>DownloadDataset\<close>; \<open>dataset_version\<close> for \<open>ExtractDataset\<close>;
  \<open>config_name\<close> for \<open>Configure\<close>; \<open>model_version\<close> and
  \<open>model_name\<close> for \<open>TrainModel\<close>, \<open>Evaluate\<close> and \<open>Export\<close>;
  none for \<open>BaselineValidation\<close>, whose tasks all share one path.
\<close>

theorem target_path_eq_iff:
  "(task_family t \<noteq> task_family t' \<longrightarrow> target_path t \<noteq> target_path t') \<and>
   (target_path (DownloadDataset dv dn) = target_path (DownloadDataset dv' dn')
      \<longleftrightarrow> dv = dv' \<and> dn = dn') \<and>
   (target_path (ExtractDataset dv dn) = target_path (ExtractDataset dv' dn') \<longleftrightarrow> dv = dv') \<and>
   (target_path (Configure cn) = target_path (Configure cn') \<longleftrightarrow> cn = cn') \<and>
   target_path (BaselineValidation dv dn cn) = target_path (BaselineValidation dv' dn' cn') \<and>
   (target_path (TrainModel dv dn cn mv mn) = target_path (TrainModel dv' dn' cn' mv' mn')
      \<longleftrightarrow> mv = mv' \<and> mn = mn') \<and>
   (target_path (Evaluate dv dn cn mv mn) = target_path (Evaluate dv' dn' cn' mv' mn')
      \<longleftrightarrow> mv = mv' \<and> mn = mn') \<and>
   (target_path (Export dv dn cn mv mn) = target_path (Export dv' dn' cn' mv' mn')
      \<longleftrightarrow> mv = mv' \<and> mn = mn')"
proof (intro conjI)
  show "task_family t \<noteq> task_family t' \<longrightarrow> target_path t \<noteq> target_path t'"
    by (simp add: family_path)
  show "target_path (DownloadDataset dv dn) = target_path (DownloadDataset dv' dn')
      \<longleftrightarrow> dv = dv' \<and> dn = dn'"
    by (rule DownloadDataset_path_inj)
  show "target_path (ExtractDataset dv dn) = target_path (ExtractDataset dv' dn') \<longleftrightarrow> dv = dv'"
    using fmt_d_inj by (auto simp: target_path_simps)
  show "target_path (Configure cn) = target_path (Configure cn') \<longleftrightarrow> cn = cn'"
    by (simp add: target_path_simps)
  show "target_path (BaselineValidation dv dn cn) = target_path (BaselineValidation dv' dn' cn')"
    by (simp add: target_path_simps)
  show "target_path (TrainModel dv dn cn mv mn) = target_path (TrainModel dv' dn' cn' mv' mn')
      \<longleftrightarrow> mv = mv' \<and> mn = mn'"
    using version_name_inj [of mv mn "''.h5''" mv' mn'] by (auto simp: target_path_simps)
  show "target_path (Evaluate dv dn cn mv mn) = target_path (Evaluate dv' dn' cn' mv' mn')
      \<longleftrightarrow> mv = mv' \<and> mn = mn'"
    using version_name_inj [of mv mn "''.json''" mv' mn'] by (auto simp: target_path_simps)
  show "target_path (Export dv dn cn mv mn) = target_path (Export dv' dn' cn' mv' mn')
      \<longleftrightarrow> mv = mv' \<and> mn = mn'"
    using name_version_inj [of mn mv mn' mv'] by (auto simp: target_path_simps)
qed

theorem target_path_eq_iff_witness:
  "task_family (Configure ''standard'') \<noteq> task_family (DownloadDataset 1 ''dataset'') \<and>
   target_path (Configure ''standard'') \<noteq> target_path (DownloadDataset 1 ''dataset'') \<and>
   target_path (TrainModel 1 ''dataset'' ''standard'' 1 ''keras_model'') \<noteq>
   target_path (TrainModel 1 ''dataset'' ''standard'' 2 ''keras_model'')"
  using target_path_eq_iff [where t = "Configure ''standard''"
      and t' = "DownloadDataset 1 ''dataset''"
      and dv = 1 and dn = "''dataset''" and cn = "''standard''"
      and dv' = 1 and dn' = "''dataset''" and cn' = "''standard''"
      and mv = 1 and mn = "''keras_model''" and mv' = 2 and mn' = "''keras_model''"]
  by simp

text \<open>
  C6. The dependency relation is well-founded, so every chain of dependencies is finite
  and recursion along \<open>requires\<close> terminates from any root; it has no cycle; the set of
  tasks reachable from any task is finite; and the tasks reachable from an \<open>Export\<close>
  task are exactly the seven tasks with the same parameter values.
\<close>

theorem dependency_graph_finite_acyclic:
  "wf dep_rel \<and> acyclic dep_rel \<and> finite (reachable t) \<and>
   reachable (Export dv dn cn mv mn) =
     {Export dv dn cn mv mn, Evaluate dv dn cn mv mn, TrainModel dv dn cn mv mn,
      BaselineValidation dv dn cn, ExtractDataset dv dn, Configure cn, DownloadDataset dv dn}"
proof (intro conjI)
  show "wf dep_rel" by (rule wf_dep_rel)
  then show "acyclic dep_rel" by (rule wf_acyclic)
  show "finite (reachable t)" by (rule finite_reachable)
  show "reachable (Export dv dn cn mv mn) =
     {Export dv dn cn mv mn, Evaluate dv dn cn mv mn, TrainModel dv dn cn mv mn,
      BaselineValidation dv dn cn, ExtractDataset dv dn, Configure cn, DownloadDataset dv dn}"
    by (subst reachable_unfold) (auto simp: reachable_Evaluate reachable_TrainModel)
qed

text \<open>
  C7. For every \<open>dataset_name\<close> \<open>n\<close> and \<open>dataset_version\<close> \<open>v\<close>,
  \<open>DownloadDataset.program_args\<close> returns \<open>curl -L -o p u\<close> with
  \<open>p = /tmp/<n>_v<v>.zip\<close> and
  \<open>u = http://plainpixels.work/resources/datasets/<n>_v<v>.zip\<close>, leaves the world
  unchanged, and \<open>p\<close> is the path of the task's own Target.
\<close>

theorem DownloadDataset_program_args_eq:
  "DownloadDataset_program_args v n w =
     ([''curl'', ''-L'', ''-o'', ''/tmp/'' @ n @ ''_v'' @ fmt_d v @ ''.zip'',
       ''http://plainpixels.work/resources/datasets/'' @ n @ ''_v'' @ fmt_d v @ ''.zip''], w) \<and>
   fst (DownloadDataset_program_args v n w) ! 3 = path (fst (output_of (DownloadDataset v n) w))"
  by (simp add: DownloadDataset_program_args_def output_of_eq target_path_simps base_url_def
        file_fomat_def Let_def del: output_of.simps)

text \<open>
  C8. For every task, calling \<open>output\<close> leaves the world as it was, and two calls, in
  any two worlds, return the same Target: its path is a function of the task's class and
  parameter values only.
\<close>

theorem output_of_pure:
  "snd (output_of t w) = w \<and>
   fst (output_of t w) = fst (output_of t w') \<and>
   path (fst (output_of t w)) = target_path t"
  by (simp add: output_of_eq del: output_of.simps)

text \<open>
  C9. \<open>Export\<close> declares \<open>Evaluate\<close> first and \<open>TrainModel\<close> second.
  \<open>Export.run\<close> loads the model from what the path
  \<open>model/<model_version>/<model_name>.h5\<close> holds, and its result does not depend on
  what \<open>Evaluate\<close>'s Target holds: replacing the content of that Target by anything
  (or removing it) changes neither the outcome nor what is written.
\<close>

theorem Export_run_reads_model_only:
  "requires (Export dv dn cn mv mn) = [Evaluate dv dn cn mv mn, TrainModel dv dn cn mv mn] \<and>
   Export_run C dv dn cn mv mn w =
     (let w' = makedirs \<lparr>path = target_path (Export dv dn cn mv mn)\<rparr> w
      in case load_model C (files w (''model/'' @ fmt_d mv @ ''/'' @ mn @ ''.h5'')) of
           Inl e \<Rightarrow> (Inl e, w')
         | Inr model \<Rightarrow>
      (case save_model C model (files w (target_path (Export dv dn cn mv mn))) of
           Inl e \<Rightarrow> (Inl e, w')
         | Inr artifact \<Rightarrow>
           (Inr (), write_target \<lparr>path = target_path (Export dv dn cn mv mn)\<rparr> artifact w'))) \<and>
   (\<forall>c. fst (Export_run C dv dn cn mv mn
                 (w\<lparr>files := (files w)(target_path (Evaluate dv dn cn mv mn) := c)\<rparr>)) =
          fst (Export_run C dv dn cn mv mn w) \<and>
        files (snd (Export_run C dv dn cn mv mn
                      (w\<lparr>files := (files w)(target_path (Evaluate dv dn cn mv mn) := c)\<rparr>))) =
          (files (snd (Export_run C dv dn cn mv mn w)))(target_path (Evaluate dv dn cn mv mn) := c) \<and>
        parents_made (snd (Export_run C dv dn cn mv mn
                      (w\<lparr>files := (files w)(target_path (Evaluate dv dn cn mv mn) := c)\<rparr>))) =
          parents_made (snd (Export_run C dv dn cn mv mn w)))"
proof (intro conjI allI)
  show "requires (Export dv dn cn mv mn) = [Evaluate dv dn cn mv mn, TrainModel dv dn cn mv mn]"
    by simp
  show "Export_run C dv dn cn mv mn w =
     (let w' = makedirs \<lparr>path = target_path (Export dv dn cn mv mn)\<rparr> w
      in case load_model C (files w (''model/'' @ fmt_d mv @ ''/'' @ mn @ ''.h5'')) of
           Inl e \<Rightarrow> (Inl e, w')
         | Inr model \<Rightarrow>
      (case save_model C model (files w (target_path (Export dv dn cn mv mn))) of
           Inl e \<Rightarrow> (Inl e, w')
         | Inr artifact \<Rightarrow>
           (Inr (), write_target \<lparr>path = target_path (Export dv dn cn mv mn)\<rparr> artifact w')))"
    by (simp only: Export_run_unfold target_path_simps(5))
next
  fix c
  let ?e = "target_path (Evaluate dv dn cn mv mn)"
  let ?w2 = "w\<lparr>files := (files w)(?e := c)\<rparr>"
  have m: "target_path (TrainModel dv dn cn mv mn) \<noteq> ?e"
    by (simp add: target_path_simps)
  have x: "target_path (Export dv dn cn mv mn) \<noteq> ?e"
    by (simp add: target_path_simps)
  show "fst (Export_run C dv dn cn mv mn ?w2) = fst (Export_run C dv dn cn mv mn w)"
    using m x by (simp add: Export_run_unfold Let_def split: sum.split)
  show "files (snd (Export_run C dv dn cn mv mn ?w2)) =
          (files (snd (Export_run C dv dn cn mv mn w)))(?e := c)"
    using m x
    by (auto simp: Export_run_unfold Let_def makedirs_def write_target_def fun_upd_twist
             split: sum.split)
  show "parents_made (snd (Export_run C dv dn cn mv mn ?w2)) =
          parents_made (snd (Export_run C dv dn cn mv mn w))"
    using m x
    by (simp add: Export_run_unfold Let_def makedirs_def write_target_def split: sum.split)
qed




end
